theory Spec2Isabelle
  imports Complex_Main "HOL-Library.Char_ord" "HOL-Library.List_Lexorder"
begin

section \<open>Values of the host language\<close>

text \<open>
  The worker is a single TypeScript module (\<^verbatim>\<open>src/index.ts\<close>). Its data are JavaScript
  values obtained from \<^verbatim>\<open>JSON.parse\<close>: trees without sharing. A string is the list of its
  code units, and the model has the code units below 256: a \<^typ>\<open>char\<close> is the code unit with
  that number. On these strings the operations below (\<^verbatim>\<open>toLowerCase\<close>, \<^verbatim>\<open>includes\<close>, \<^verbatim>\<open>split\<close>, ...)
  are the JavaScript ones.

  A JavaScript number that is not \<^verbatim>\<open>NaN\<close> is a finite value or one of the two infinities
  (\<^verbatim>\<open>JSON.parse("1e999")\<close> is \<^verbatim>\<open>Infinity\<close>). Finite values are modelled by rationals: the
  code only truncates, compares and bounds them, and these operations are exact on doubles.
  \<^verbatim>\<open>NaN\<close>, which \<^verbatim>\<open>JSON.parse\<close> never yields, is the value \<open>None\<close> of \<open>jsnum option\<close>.
\<close>

datatype jsnum = Fin rat | PosInf | NegInf

datatype json =
    JNull
  | JBool bool
  | JNum jsnum
  | JStr string
  | JArr "json list"
  | JObj "(string \<times> json) list"

text \<open>
  A thrown value: an \<^verbatim>\<open>Error\<close>, a \<^verbatim>\<open>TypeError\<close> or a \<^verbatim>\<open>RangeError\<close> with its message. The module
  inspects the message, and \<^verbatim>\<open>String(e)\<close> shows the name as well.
\<close>

datatype exn = Error (message: string) | TypeError (message: string) | RangeError (message: string)

text \<open>
  The exceptions that the host itself raises in code of the module: a recursion that
  exhausts the call stack, and the two refusals of the \<^verbatim>\<open>Response\<close> constructor.
\<close>

datatype fault = Stack_exhausted | Status_out_of_range | Null_body_status

text \<open>The recursions of the module on a value of unbounded depth.\<close>

datatype site = In_walk | In_helper | In_stringify

text \<open>
  Built-ins of the host that the module calls and that are not defined in the repository.
  They are parameters of the model:
  \<^item> \<open>Number_of s\<close> is \<^verbatim>\<open>Number(s)\<close> on a string (\<open>None\<close> is \<^verbatim>\<open>NaN\<close>);
  \<^item> \<open>Number_toString r\<close> is \<^verbatim>\<open>String(r)\<close> on a finite number;
  \<^item> \<open>String_trim s\<close> is \<^verbatim>\<open>s.trim()\<close>, which strips the white space and the line terminators
    of the language from both ends;
  \<^item> \<open>JSON_parse t\<close> is \<^verbatim>\<open>JSON.parse(t)\<close> (\<open>None\<close> when it throws);
  \<^item> \<open>sha256Hex t\<close> is the hexadecimal SHA-256 digest of the UTF-8 encoding of \<open>t\<close>;
  \<^item> \<open>exhausts site d\<close> says whether the recursion \<open>site\<close> on a value nested \<open>d\<close> deep exhausts
    the call stack, which throws a \<^verbatim>\<open>RangeError\<close>;
  \<^item> \<open>fault_message f\<close> is the message of the exception that the host raises for \<open>f\<close>;
  \<^item> \<open>empty_body_is_null\<close> says how \<^verbatim>\<open>new Response\<close> treats a zero-length body given with a
    null-body status: the Fetch standard has the constructor throw, the Workers runtime
    takes the body for \<^verbatim>\<open>null\<close>.
\<close>

record host =
  Number_of :: "string \<Rightarrow> jsnum option"
  Number_toString :: "rat \<Rightarrow> string"
  String_trim :: "string \<Rightarrow> string"
  JSON_parse :: "string \<Rightarrow> json option"
  sha256Hex :: "string \<Rightarrow> string"
  exhausts :: "site \<Rightarrow> nat \<Rightarrow> bool"
  fault_message :: "fault \<Rightarrow> string"
  empty_body_is_null :: bool

subsection \<open>Strings\<close>

text \<open>
  \<^verbatim>\<open>toLowerCase\<close>: among the code units below 256 the letters with a lower-case form are
  \<^verbatim>\<open>A\<close> to \<^verbatim>\<open>Z\<close> and U+00C0 to U+00DE without the multiplication sign U+00D7.
\<close>

definition lower_char :: "char \<Rightarrow> char" where
  "lower_char c =
     (let n = (of_char c :: nat) in
      if (65 \<le> n \<and> n \<le> 90) \<or> (192 \<le> n \<and> n \<le> 222 \<and> n \<noteq> 215) then char_of (n + 32) else c)"

definition toLowerCase :: "string \<Rightarrow> string" where
  "toLowerCase s = map lower_char s"

fun startsWith :: "string \<Rightarrow> string \<Rightarrow> bool" where
  "startsWith s [] = True"
| "startsWith [] (p # ps) = False"
| "startsWith (c # cs) (p # ps) = (c = p \<and> startsWith cs ps)"

text \<open>\<^verbatim>\<open>s.includes(pat)\<close>: \<open>pat\<close> occurs in \<open>s\<close> as a contiguous substring.\<close>

fun includesStr :: "string \<Rightarrow> string \<Rightarrow> bool" where
  "includesStr [] pat = (pat = [])"
| "includesStr (c # cs) pat = (startsWith (c # cs) pat \<or> includesStr cs pat)"

definition endsWith :: "string \<Rightarrow> string \<Rightarrow> bool" where
  "endsWith s suf = startsWith (rev s) (rev suf)"

text \<open>\<^verbatim>\<open>String(n)\<close> on a non-negative integer, as the template literals use it.\<close>

fun show_nat :: "nat \<Rightarrow> string" where
  "show_nat n =
     (if n < 10 then [char_of (48 + n)] else show_nat (n div 10) @ [char_of (48 + n mod 10)])"

declare show_nat.simps [simp del]

text \<open>\<^verbatim>\<open>s.split(",")\<close>.\<close>

fun split_on :: "char \<Rightarrow> string \<Rightarrow> string list" where
  "split_on sep [] = [[]]"
| "split_on sep (c # cs) =
     (if c = sep then [] # split_on sep cs
      else (case split_on sep cs of
              [] \<Rightarrow> [[c]]
            | x # xs \<Rightarrow> (c # x) # xs))"

fun join :: "string \<Rightarrow> string list \<Rightarrow> string" where
  "join sep [] = []"
| "join sep [x] = x"
| "join sep (x # y # ys) = x @ sep @ join sep (y # ys)"

subsection \<open>Numbers\<close>

definition isFinite :: "jsnum \<Rightarrow> bool" where
  "isFinite n = (case n of Fin r \<Rightarrow> True | _ \<Rightarrow> False)"

definition Math_trunc :: "rat \<Rightarrow> int" where
  "Math_trunc r = (if 0 \<le> r then \<lfloor>r\<rfloor> else \<lceil>r\<rceil>)"

text \<open>\<^verbatim>\<open>a < b\<close> and \<^verbatim>\<open>a >= b\<close> on numbers that are not \<^verbatim>\<open>NaN\<close>.\<close>

fun num_less :: "jsnum \<Rightarrow> jsnum \<Rightarrow> bool" where
  "num_less (Fin a) (Fin b) = (a < b)"
| "num_less NegInf (Fin b) = True"
| "num_less NegInf PosInf = True"
| "num_less (Fin a) PosInf = True"
| "num_less (Fin a) NegInf = False"
| "num_less NegInf NegInf = False"
| "num_less PosInf b = False"

fun num_ge :: "jsnum \<Rightarrow> jsnum \<Rightarrow> bool" where
  "num_ge (Fin a) (Fin b) = (a \<ge> b)"
| "num_ge PosInf b = True"
| "num_ge (Fin a) NegInf = True"
| "num_ge NegInf NegInf = True"
| "num_ge (Fin a) PosInf = False"
| "num_ge NegInf (Fin b) = False"
| "num_ge NegInf PosInf = False"

section \<open>Limits: \<^verbatim>\<open>clampPagination\<close>\<close>

text \<open>
  \<^verbatim>\<open>clampInt(n, min, max)\<close>: a non-finite number gives \<open>min\<close>, a finite one is truncated
  toward zero and bounded.
\<close>

definition clampInt :: "jsnum \<Rightarrow> int \<Rightarrow> int \<Rightarrow> int" where
  "clampInt n lo hi =
     (case n of Fin r \<Rightarrow> min (max (Math_trunc r) lo) hi | _ \<Rightarrow> lo)"

text \<open>
  \<^verbatim>\<open>clampNumberish(v, min, max)\<close>: numbers are clamped, strings that are not blank and whose
  \<^verbatim>\<open>Number\<close> is finite are clamped, everything else gives \<open>min\<close>.
\<close>

definition clampNumberish :: "host \<Rightarrow> json \<Rightarrow> int \<Rightarrow> int \<Rightarrow> int" where
  "clampNumberish h v lo hi =
     (case v of
        JNum n \<Rightarrow> clampInt n lo hi
      | JStr s \<Rightarrow>
          (if String_trim h s \<noteq> [] then
             (case Number_of h s of
                Some (Fin r) \<Rightarrow> clampInt (Fin r) lo hi
              | _ \<Rightarrow> lo)
           else lo)
      | _ \<Rightarrow> lo)"

definition is_ids_key :: "string \<Rightarrow> bool" where
  "is_ids_key k = (k = ''ids'' \<or> endsWith k ''Ids'')"

definition isArray :: "json \<Rightarrow> bool" where
  "isArray v = (case v of JArr xs \<Rightarrow> True | _ \<Rightarrow> False)"

text \<open>\<^verbatim>\<open>v.slice(0, n)\<close> on an array.\<close>

definition slice0 :: "nat \<Rightarrow> json \<Rightarrow> json" where
  "slice0 n v = (case v of JArr xs \<Rightarrow> JArr (take n xs) | _ \<Rightarrow> v)"

text \<open>
  \<^verbatim>\<open>walk\<close> mutates the tree in place; the model returns the tree after the walk. At a key
  \<^verbatim>\<open>first\<close> or \<^verbatim>\<open>skip\<close> the property is overwritten by a number, and the walk of the old value
  changes a subtree that is no longer reachable. At an \<^verbatim>\<open>ids\<close> key holding an array the property
  becomes a fresh array of the first 200 elements; the walk of the old array changes its
  elements in place, and those are shared with the fresh array.
\<close>

fun walk :: "host \<Rightarrow> json \<Rightarrow> json" where
  "walk h (JObj kvs) =
     JObj (map (\<lambda>(k, v).
        (k, if k = ''first'' then JNum (Fin (of_int (clampNumberish h v 1 200)))
            else if k = ''skip'' then JNum (Fin (of_int (clampNumberish h v 0 100000)))
            else if is_ids_key k \<and> isArray v then slice0 200 (walk h v)
            else walk h v)) kvs)"
| "walk h (JArr xs) = JArr (map (walk h) xs)"
| "walk h v = v"

definition clampPagination :: "host \<Rightarrow> json \<Rightarrow> json" where
  "clampPagination h variables = walk h variables"

section \<open>TTL policy: \<^verbatim>\<open>pickTtlSeconds\<close>\<close>

definition DEFAULT_TTL_SECONDS :: nat where
  "DEFAULT_TTL_SECONDS = 8"

definition pickTtlSeconds :: "string \<Rightarrow> nat" where
  "pickTtlSeconds query =
     (let q = toLowerCase query in
      if includesStr q ''query globalfeed'' then 3
      else if includesStr q ''_meta'' \<or> includesStr q ''query __meta'' then 3
      else if includesStr q ''query globalstats'' \<or> includesStr q ''query globalstatsbillboard'' then 8
      else if includesStr q ''query homelotteries'' then 8
      else if includesStr q ''query lotterybyid'' then 15
      else if includesStr q ''query userlotteriesbyuser'' then 15
      else if includesStr q ''query userlotteriesbylottery'' then 15
      else if includesStr q ''query lotteriesbycreator'' then 20
      else if includesStr q ''query lotteriesbyfeerecipient'' then 20
      else DEFAULT_TTL_SECONDS)"

section \<open>Stable hashing: \<^verbatim>\<open>canonicalStringify\<close> and the cache key\<close>

subsection \<open>Own properties of an ordinary object\<close>

text \<open>
  \<open>JObj kvs\<close> lists the own properties of an object in the order of their creation, each
  key once. The host enumerates them (\<^verbatim>\<open>Object.keys\<close>, \<^verbatim>\<open>JSON.stringify\<close>) with the array
  indices first, in ascending numeric order, and the other keys after them in creation
  order. An array index is a canonical decimal numeral below \<open>2^32 - 1\<close>.
\<close>

definition is_digit :: "char \<Rightarrow> bool" where
  "is_digit c = (let n = (of_char c :: nat) in 48 \<le> n \<and> n \<le> 57)"

definition digits_val :: "string \<Rightarrow> int" where
  "digits_val s = foldl (\<lambda>a c. 10 * a + (of_char c - 48)) 0 s"

definition is_array_index :: "string \<Rightarrow> bool" where
  "is_array_index k =
     (k \<noteq> [] \<and> list_all is_digit k \<and> (k = ''0'' \<or> hd k \<noteq> CHR ''0'') \<and>
      digits_val k < 4294967295)"

definition ordered_entries :: "(string \<times> 'a) list \<Rightarrow> (string \<times> 'a) list" where
  "ordered_entries kvs =
     sort_key (\<lambda>(k, v). digits_val k) (filter (\<lambda>(k, v). is_array_index k) kvs) @
     filter (\<lambda>(k, v). \<not> is_array_index k) kvs"

definition Object_keys :: "(string \<times> 'a) list \<Rightarrow> string list" where
  "Object_keys kvs = map fst (ordered_entries kvs)"

text \<open>
  \<^verbatim>\<open>out[k] = v\<close> on an object \<open>out\<close> that was created by \<^verbatim>\<open>{}\<close>. The key \<^verbatim>\<open>__proto__\<close> reaches the
  accessor inherited from \<^verbatim>\<open>Object.prototype\<close>: the assignment creates no own property.
\<close>

definition set_prop :: "(string \<times> 'a) list \<Rightarrow> string \<Rightarrow> 'a \<Rightarrow> (string \<times> 'a) list" where
  "set_prop out k v =
     (if k = ''__proto__'' then out
      else if k \<in> set (map fst out) then map (\<lambda>(k', v'). (k', if k' = k then v else v')) out
      else out @ [(k, v)])"

text \<open>\<^verbatim>\<open>v[k]\<close> on a value from \<^verbatim>\<open>JSON.parse\<close>; \<open>None\<close> is \<^verbatim>\<open>undefined\<close>.\<close>

definition get_prop :: "json \<Rightarrow> string \<Rightarrow> json option" where
  "get_prop v k = (case v of JObj kvs \<Rightarrow> map_of kvs k | _ \<Rightarrow> None)"

subsection \<open>\<^verbatim>\<open>JSON.stringify\<close>\<close>

definition hex_digit :: "nat \<Rightarrow> char" where
  "hex_digit d = (if d < 10 then char_of (48 + d) else char_of (87 + d))"

definition quote_char :: "char \<Rightarrow> string" where
  "quote_char c =
     (let n = (of_char c :: nat) in
      if n = 34 then [CHR 0x5C, CHR 0x22]
      else if n = 92 then [CHR 0x5C, CHR 0x5C]
      else if n = 8 then [CHR 0x5C, CHR ''b'']
      else if n = 12 then [CHR 0x5C, CHR ''f'']
      else if n = 10 then [CHR 0x5C, CHR ''n'']
      else if n = 13 then [CHR 0x5C, CHR ''r'']
      else if n = 9 then [CHR 0x5C, CHR ''t'']
      else if n < 32 then [CHR 0x5C, CHR ''u'', CHR ''0'', CHR ''0'', hex_digit (n div 16), hex_digit (n mod 16)]
      else [c])"

definition JSON_quote :: "string \<Rightarrow> string" where
  "JSON_quote s = CHR 0x22 # concat (map quote_char s) @ [CHR 0x22]"

text \<open>A number in JSON text: the non-finite ones are written \<^verbatim>\<open>null\<close>.\<close>

definition num_to_json :: "host \<Rightarrow> jsnum \<Rightarrow> string" where
  "num_to_json h n = (case n of Fin r \<Rightarrow> Number_toString h r | _ \<Rightarrow> ''null'')"

fun JSON_stringify :: "host \<Rightarrow> json \<Rightarrow> string" where
  "JSON_stringify h JNull = ''null''"
| "JSON_stringify h (JBool b) = (if b then ''true'' else ''false'')"
| "JSON_stringify h (JNum n) = num_to_json h n"
| "JSON_stringify h (JStr s) = JSON_quote s"
| "JSON_stringify h (JArr xs) = ''['' @ join '','' (map (JSON_stringify h) xs) @ '']''"
| "JSON_stringify h (JObj kvs) =
     ''{'' @ join '',''
        (map (\<lambda>(k, t). JSON_quote k @ '':'' @ t)
           (ordered_entries (map (\<lambda>(k, v). (k, JSON_stringify h v)) kvs))) @ ''}''"

subsection \<open>\<^verbatim>\<open>canonicalStringify\<close>\<close>

text \<open>
  \<^verbatim>\<open>helper\<close> rebuilds every object with its keys inserted in sorted order. The model applies
  \<open>helper\<close> to the property values first and lets the loop over the sorted keys read them
  by key, as \<^verbatim>\<open>helper(v[k])\<close> does. The \<^verbatim>\<open>seen\<close> set holds object identities; on a tree no
  object is met twice, so that branch is never taken and has no counterpart here.
\<close>

fun helper :: "json \<Rightarrow> json" where
  "helper (JArr xs) = JArr (map helper xs)"
| "helper (JObj kvs) =
     (let vals = map (\<lambda>(k, v). (k, helper v)) kvs in
      JObj (foldl (\<lambda>out k. case map_of vals k of Some v \<Rightarrow> set_prop out k v | None \<Rightarrow> out)
              [] (sort (Object_keys kvs))))"
| "helper v = v"

definition canonicalStringify :: "host \<Rightarrow> json \<Rightarrow> string" where
  "canonicalStringify h v = JSON_stringify h (helper v)"

text \<open>
  The hash key of a request (lines 118 to 130 of \<^verbatim>\<open>fetch\<close>): the variables are clamped, then
  \<^verbatim>\<open>{v: 7, query, variables}\<close> is canonicalised and hashed.
\<close>

definition cache_key :: "host \<Rightarrow> string \<Rightarrow> json \<Rightarrow> string" where
  "cache_key h query variables =
     sha256Hex h (canonicalStringify h
       (JObj [(''v'', JNum (Fin 7)), (''query'', JStr query),
              (''variables'', clampPagination h variables)]))"

section \<open>Depth of a value\<close>

text \<open>
  \<^verbatim>\<open>walk\<close>, \<^verbatim>\<open>helper\<close> and \<^verbatim>\<open>JSON.stringify\<close> recurse once for each level of nesting of their
  argument. Whether such a recursion exhausts the call stack is the host's matter
  (\<open>exhausts\<close>); the model gives it the depth of the argument.
\<close>

fun depth :: "json \<Rightarrow> nat" where
  "depth (JArr xs) = Suc (foldr max (map depth xs) 0)"
| "depth (JObj kvs) = Suc (foldr max (map (\<lambda>(k, v). depth v) kvs) 0)"
| "depth v = 0"

definition stack_overflow :: "host \<Rightarrow> exn" where
  "stack_overflow h = RangeError (fault_message h Stack_exhausted)"

section \<open>Requests, responses and the edge cache\<close>

text \<open>
  A URL is kept in the three parts the module touches: everything before the path, the path
  and the query string. A \<^verbatim>\<open>Headers\<close> object is the list of its entries: the names, which
  are ASCII, are stored in lower case, and a value is stored and read without its leading and
  trailing HTTP white space (tab, line feed, carriage return, space). The names that the
  module stores are literals, and the values are literals or made of values read from other
  headers, so the checks of \<^verbatim>\<open>Headers\<close> on them never fail. A null body is the empty string.
  A response has the headers the module gives it; those that the runtime adds on its own
  are left out.
\<close>

record url =
  origin :: string
  pathname :: string
  search :: string

definition url_toString :: "url \<Rightarrow> string" where
  "url_toString u = origin u @ pathname u @ search u"

type_synonym headers = "(string \<times> string) list"

definition is_http_space :: "char \<Rightarrow> bool" where
  "is_http_space c = (let n = (of_char c :: nat) in n = 9 \<or> n = 10 \<or> n = 13 \<or> n = 32)"

definition normalize_value :: "string \<Rightarrow> string" where
  "normalize_value v = rev (dropWhile is_http_space (rev (dropWhile is_http_space v)))"

definition headers_get :: "headers \<Rightarrow> string \<Rightarrow> string option" where
  "headers_get hs name = map_option normalize_value (map_of hs (toLowerCase name))"

definition headers_set :: "headers \<Rightarrow> string \<Rightarrow> string \<Rightarrow> headers" where
  "headers_set hs name v =
     (let n = toLowerCase name; x = normalize_value v in
      if n \<in> set (map fst hs) then map (\<lambda>(k, y). (k, if k = n then x else y)) hs
      else hs @ [(n, x)])"

definition headers_delete :: "headers \<Rightarrow> string \<Rightarrow> headers" where
  "headers_delete hs name = filter (\<lambda>(k, x). k \<noteq> toLowerCase name) hs"

definition new_Headers :: "(string \<times> string) list \<Rightarrow> headers" where
  "new_Headers init = foldl (\<lambda>hs (k, v). headers_set hs k v) [] init"

record response =
  r_status :: nat
  r_headers :: headers
  r_body :: string

text \<open>
  \<^verbatim>\<open>new Response(body, {status, headers})\<close> throws a \<^verbatim>\<open>RangeError\<close> when the status is not in
  200 to 599, and a \<^verbatim>\<open>TypeError\<close> when a body that is not \<^verbatim>\<open>null\<close> comes with a null-body
  status; a zero-length body counts as \<^verbatim>\<open>null\<close> on a host that takes it so.
  \<open>Response_fault\<close> is the exception, if any; the body \<open>None\<close> is \<^verbatim>\<open>null\<close>.
\<close>

definition null_body_status :: "nat \<Rightarrow> bool" where
  "null_body_status st = (st = 101 \<or> st = 103 \<or> st = 204 \<or> st = 205 \<or> st = 304)"

definition Response_fault :: "host \<Rightarrow> string option \<Rightarrow> nat \<Rightarrow> exn option" where
  "Response_fault h body st =
     (if st < 200 \<or> 599 < st then Some (RangeError (fault_message h Status_out_of_range))
      else if null_body_status st \<and>
              (case body of None \<Rightarrow> False | Some b \<Rightarrow> \<not> (b = [] \<and> empty_body_is_null h))
      then Some (TypeError (fault_message h Null_body_status))
      else None)"

definition new_Response :: "host \<Rightarrow> string option \<Rightarrow> nat \<Rightarrow> headers \<Rightarrow> exn + response" where
  "new_Response h body st hs =
     (case Response_fault h body st of
        Some e \<Rightarrow> Inl e
      | None \<Rightarrow>
          Inr \<lparr>r_status = st, r_headers = hs,
               r_body = (case body of None \<Rightarrow> [] | Some b \<Rightarrow> b)\<rparr>)"

text \<open>
  \<^verbatim>\<open>new Response(r.body, {status: r.status, headers})\<close> for a response \<open>r\<close> at hand: the body of
  a response with a null-body status is \<^verbatim>\<open>null\<close>.
\<close>

definition rebuilt :: "host \<Rightarrow> response \<Rightarrow> headers \<Rightarrow> exn + response" where
  "rebuilt h r hs =
     new_Response h (if null_body_status (r_status r) then None else Some (r_body r))
       (r_status r) hs"

text \<open>Sequencing of steps that may throw.\<close>

definition and_then :: "exn + 'a \<Rightarrow> ('a \<Rightarrow> exn + 'b) \<Rightarrow> exn + 'b" where
  "and_then x f = (case x of Inl e \<Rightarrow> Inl e | Inr a \<Rightarrow> f a)"

record request =
  req_method :: string
  req_url :: url
  req_headers :: headers
  req_text :: "exn + string"

record Env =
  SUBGRAPH_URL :: string

text \<open>
  What a call of the upstream gives once \<^verbatim>\<open>fetchWithTimeout\<close> and \<^verbatim>\<open>text()\<close> have both
  settled: an exception, or the status, the \<^verbatim>\<open>content-type\<close> header as received and the
  body. The exception is whatever the call expression throws, the serialisation of its body
  included.
\<close>

record upstream_response =
  up_status :: nat
  up_content_type :: "string option"
  up_text :: string

definition up_ok :: "upstream_response \<Rightarrow> bool" where
  "up_ok r = (200 \<le> up_status r \<and> up_status r \<le> 299)"

text \<open>
  \<^verbatim>\<open>caches.default\<close>, keyed by the URL of the synthetic \<^verbatim>\<open>GET\<close> request. Expiry is the
  cache engine's business and is not part of the model.
\<close>

type_synonym cache = "string \<Rightarrow> response option"

text \<open>
  The answers of the outside world to one run of the handler: the upstream call for the
  query, the \<^verbatim>\<open>__Meta\<close> call, and whether an operation on the cache rejects.
\<close>

record world =
  upstream :: "exn + upstream_response"
  probe :: "exn + upstream_response"
  match_throws :: bool
  meta_match_throws :: bool
  meta_put_throws :: bool

text \<open>\<^verbatim>\<open>InflightValue\<close>: the plain data kept for an upstream attempt.\<close>

record InflightValue =
  iv_status :: nat
  iv_contentType :: string
  iv_text :: string
  iv_ok :: bool

definition FORCE_FRESH_HEADER :: string where
  "FORCE_FRESH_HEADER = ''x-force-fresh''"

definition META_CACHE_TTL_SECONDS :: nat where
  "META_CACHE_TTL_SECONDS = 30 * 60"

subsection \<open>Cache-Control helpers and response builders\<close>

definition cacheControlEdgeOnly :: "nat \<Rightarrow> string" where
  "cacheControlEdgeOnly ttl =
     ''public, max-age=0, s-maxage='' @ show_nat ttl @ '', stale-while-revalidate='' @ show_nat ttl"

definition cacheControlMeta :: "nat \<Rightarrow> string" where
  "cacheControlMeta ttl =
     ''public, max-age=0, s-maxage='' @ show_nat ttl @
     '', stale-while-revalidate='' @ show_nat (min 30 ttl)"

datatype XCache = HIT | MISS | COALESCED | BYPASS | COALESCED_BYPASS | BYPASS_WRITE

fun XCache_name :: "XCache \<Rightarrow> string" where
  "XCache_name HIT = ''HIT''"
| "XCache_name MISS = ''MISS''"
| "XCache_name COALESCED = ''COALESCED''"
| "XCache_name BYPASS = ''BYPASS''"
| "XCache_name COALESCED_BYPASS = ''COALESCED_BYPASS''"
| "XCache_name BYPASS_WRITE = ''BYPASS_WRITE''"

definition makeTextResponse :: "host \<Rightarrow> InflightValue \<Rightarrow> nat \<Rightarrow> XCache \<Rightarrow> exn + response" where
  "makeTextResponse h v ttl xCache =
     (let cc = cacheControlEdgeOnly ttl in
      new_Response h (Some (iv_text v)) (iv_status v)
        (new_Headers
           [(''content-type'', iv_contentType v),
            (''Cache-Control'', cc),
            (''CDN-Cache-Control'', cc),
            (''X-Cache'', XCache_name xCache)]))"

definition addHeaders :: "host \<Rightarrow> response \<Rightarrow> (string \<times> string) list \<Rightarrow> exn + response" where
  "addHeaders h res extra =
     rebuilt h res (foldl (\<lambda>hs (k, v). headers_set hs k v) (r_headers res) extra)"

subsection \<open>CORS\<close>

definition clean_vary :: "host \<Rightarrow> string \<Rightarrow> string" where
  "clean_vary h vary =
     join '', ''
       (filter (\<lambda>t. toLowerCase t \<noteq> ''origin'') (map (String_trim h) (split_on CHR '','' vary)))"

definition withCors :: "host \<Rightarrow> response \<Rightarrow> exn + response" where
  "withCors h res =
     (let hs1 = headers_set (r_headers res) ''Access-Control-Allow-Origin'' ''*'';
          hs2 = headers_set hs1 ''Access-Control-Allow-Methods'' ''POST, OPTIONS, GET'';
          hs3 = headers_set hs2 ''Access-Control-Allow-Headers'' ''Content-Type, X-Force-Fresh'';
          hs4 = (case headers_get hs3 ''Vary'' of
                   None \<Rightarrow> hs3
                 | Some vary \<Rightarrow>
                     if vary \<noteq> [] \<and> includesStr (toLowerCase vary) ''origin'' then
                       (let cleaned = clean_vary h vary in
                        if cleaned \<noteq> [] then headers_set hs3 ''Vary'' cleaned
                        else headers_delete hs3 ''Vary'')
                     else hs3)
      in rebuilt h res hs4)"

definition or_default :: "string option \<Rightarrow> string \<Rightarrow> string" where
  "or_default x d = (case x of None \<Rightarrow> d | Some v \<Rightarrow> if v = [] then d else v)"

definition handleOptions :: "host \<Rightarrow> request \<Rightarrow> exn + response" where
  "handleOptions h req =
     (let reqHeaders = or_default (headers_get (req_headers req) ''Access-Control-Request-Headers'')
                         ''content-type'';
          reqMethod = or_default (headers_get (req_headers req) ''Access-Control-Request-Method'')
                         ''POST''
      in new_Response h None 204
           (headers_set (headers_set (headers_set (headers_set []
              ''Access-Control-Allow-Origin'' ''*'')
              ''Access-Control-Allow-Methods'' (''POST, OPTIONS, GET, '' @ reqMethod))
              ''Access-Control-Allow-Headers'' reqHeaders)
              ''Access-Control-Max-Age'' ''86400''))"

section \<open>Meta-guard\<close>

text \<open>\<^verbatim>\<open>String(n)\<close> on a number.\<close>

definition String_of_num :: "host \<Rightarrow> jsnum \<Rightarrow> string" where
  "String_of_num h n =
     (case n of Fin r \<Rightarrow> Number_toString h r | PosInf \<Rightarrow> ''Infinity'' | NegInf \<Rightarrow> ''-Infinity'')"

definition metaKeyUrlFrom :: "url \<Rightarrow> string \<Rightarrow> string" where
  "metaKeyUrlFrom reqUrl hashKey =
     url_toString (reqUrl\<lparr>pathname := ''/__meta/'' @ hashKey, search := []\<rparr>)"

text \<open>The optional chain \<^verbatim>\<open>j?.data?._meta?.block?.number\<close>; \<open>None\<close> is \<^verbatim>\<open>undefined\<close>.\<close>

definition meta_number :: "json \<Rightarrow> json option" where
  "meta_number j =
     Option.bind (Option.bind (Option.bind (get_prop j ''data'')
        (\<lambda>d. get_prop d ''_meta'')) (\<lambda>m. get_prop m ''block'')) (\<lambda>b. get_prop b ''number'')"

definition parseMetaBlockFromJsonText :: "host \<Rightarrow> string \<Rightarrow> jsnum option" where
  "parseMetaBlockFromJsonText h t =
     (case JSON_parse h t of
        None \<Rightarrow> None
      | Some j \<Rightarrow>
          (case meta_number j of
             Some (JNum n) \<Rightarrow> Some n
           | Some (JStr s) \<Rightarrow>
               (if String_trim h s \<noteq> [] then
                  (case Number_of h s of Some (Fin r) \<Rightarrow> Some (Fin r) | _ \<Rightarrow> None)
                else None)
           | _ \<Rightarrow> None))"

definition fetchSubgraphMetaBlock :: "host \<Rightarrow> world \<Rightarrow> jsnum option" where
  "fetchSubgraphMetaBlock h w =
     (case probe w of
        Inl e \<Rightarrow> None
      | Inr res \<Rightarrow> if \<not> up_ok res then None else parseMetaBlockFromJsonText h (up_text res))"

text \<open>
  The counter recorded for a key, as the guard reads it: the body of the entry under the
  meta URL, when \<^verbatim>\<open>cache.match\<close> does not reject and \<^verbatim>\<open>Number\<close> of the body is finite.
\<close>

definition read_oldMeta :: "host \<Rightarrow> world \<Rightarrow> cache \<Rightarrow> string \<Rightarrow> rat option" where
  "read_oldMeta h w c metaUrl =
     (if meta_match_throws w then None
      else (case c metaUrl of
              None \<Rightarrow> None
            | Some cached \<Rightarrow>
                (case Number_of h (r_body cached) of Some (Fin r) \<Rightarrow> Some r | _ \<Rightarrow> None)))"

text \<open>
  \<^verbatim>\<open>toStore\<close> (lines 485 to 492): the constructor accepts the status 200 with any body, so the
  response is always built.
\<close>

definition meta_entry :: "host \<Rightarrow> jsnum \<Rightarrow> response" where
  "meta_entry h newMeta =
     (let cc = cacheControlMeta META_CACHE_TTL_SECONDS in
      \<lparr>r_status = 200,
       r_headers = new_Headers
         [(''content-type'', ''text/plain; charset=utf-8''),
          (''Cache-Control'', cc),
          (''CDN-Cache-Control'', cc)],
       r_body = String_of_num h newMeta\<rparr>)"

text \<open>The URL of \<^verbatim>\<open>metaReq\<close>: \<^verbatim>\<open>metaKeyUrlFrom("https://example.invalid/graphql", hashKey)\<close>.\<close>

definition metaReq_url :: "string \<Rightarrow> string" where
  "metaReq_url hashKey =
     metaKeyUrlFrom
       \<lparr>origin = ''https://example.invalid'', pathname = ''/graphql'', search = []\<rparr> hashKey"

text \<open>
  \<^verbatim>\<open>shouldWriteThroughCacheMetaGuard\<close> returns its verdict and the cache as it leaves it.
\<close>

definition shouldWriteThroughCacheMetaGuard ::
    "host \<Rightarrow> world \<Rightarrow> cache \<Rightarrow> string \<Rightarrow> bool \<times> cache" where
  "shouldWriteThroughCacheMetaGuard h w c hashKey =
     (case fetchSubgraphMetaBlock h w of
        None \<Rightarrow> (False, c)
      | Some newMeta \<Rightarrow>
          (let metaUrl = metaReq_url hashKey;
               oldMeta = read_oldMeta h w c metaUrl
           in if (case oldMeta of None \<Rightarrow> False | Some old \<Rightarrow> num_less newMeta (Fin old))
              then (False, c)
              else (True, if meta_put_throws w then c
                          else c(metaUrl \<mapsto> meta_entry h newMeta))))"

section \<open>The upstream attempt\<close>

text \<open>
  \<^verbatim>\<open>isAbortTimeout(e)\<close>: the timer of \<^verbatim>\<open>fetchWithTimeout\<close> aborts the call with the error
  \<^verbatim>\<open>timeout\<close>, and a failure is taken for a timeout when its message contains that word.
\<close>

definition isAbortTimeout :: "exn \<Rightarrow> bool" where
  "isAbortTimeout e = includesStr (toLowerCase (message e)) ''timeout''"

text \<open>\<^verbatim>\<open>"errors" in parsed\<close> for a value that is a non-null object.\<close>

definition has_errors :: "json \<Rightarrow> bool" where
  "has_errors parsed =
     (case parsed of JObj kvs \<Rightarrow> ''errors'' \<in> set (map fst kvs) | _ \<Rightarrow> False)"

definition okToCache :: "host \<Rightarrow> InflightValue \<Rightarrow> bool" where
  "okToCache h v =
     (if iv_ok v \<and> includesStr (iv_contentType v) ''application/json'' then
        (case JSON_parse h (iv_text v) of
           None \<Rightarrow> False
         | Some parsed \<Rightarrow> \<not> has_errors parsed)
      else iv_ok v)"

definition failure_value :: "host \<Rightarrow> exn \<Rightarrow> InflightValue" where
  "failure_value h e =
     \<lparr>iv_status = (if isAbortTimeout e then 504 else 502),
      iv_contentType = ''application/json'',
      iv_text = JSON_stringify h (JObj
         [(''error'', JStr (if isAbortTimeout e then ''UPSTREAM_TIMEOUT'' else ''UPSTREAM_FETCH_FAILED'')),
          (''message'', JStr (message e))]),
      iv_ok = False\<rparr>"

text \<open>
  The value \<^verbatim>\<open>v\<close> built from a response of the upstream (lines 178 to 186);
  \<^verbatim>\<open>upstream.headers.get("content-type")\<close> reads the header without its outer white space.
\<close>

definition upstream_value :: "upstream_response \<Rightarrow> InflightValue" where
  "upstream_value up =
     \<lparr>iv_status = up_status up,
      iv_contentType =
        (case up_content_type up of Some t \<Rightarrow> normalize_value t | None \<Rightarrow> ''application/json''),
      iv_text = up_text up,
      iv_ok = up_ok up\<rparr>"

text \<open>
  The body of the asynchronous function behind the in-flight promise (lines 166 to 230). It
  gives the value the promise resolves to, the response handed to
  \<^verbatim>\<open>ctx.waitUntil(cache.put(cacheReq, ...))\<close> if there is one, and the cache as the meta-guard
  leaves it. When \<^verbatim>\<open>makeTextResponse\<close> throws, the \<^verbatim>\<open>catch\<close> turns the exception into a failure
  value like any other. Both branches of the \<^verbatim>\<open>try\<close> return a value: the promise never
  rejects.
\<close>

definition attempt ::
    "host \<Rightarrow> world \<Rightarrow> cache \<Rightarrow> string \<Rightarrow> nat \<Rightarrow> bool \<Rightarrow> InflightValue \<times> response option \<times> cache" where
  "attempt h w c hashKey ttl forceFresh =
     (case upstream w of
        Inl e \<Rightarrow> (failure_value h e, None, c)
      | Inr up \<Rightarrow>
          (let v = upstream_value up
           in if okToCache h v then
                (if forceFresh then
                   (case shouldWriteThroughCacheMetaGuard h w c hashKey of
                      (shouldWrite, c') \<Rightarrow>
                        if shouldWrite then
                          (case makeTextResponse h v ttl BYPASS_WRITE of
                             Inr toCache \<Rightarrow> (v, Some toCache, c')
                           | Inl e \<Rightarrow> (failure_value h e, None, c'))
                        else (v, None, c'))
                 else
                   (case makeTextResponse h v ttl MISS of
                      Inr toCache \<Rightarrow> (v, Some toCache, c)
                    | Inl e \<Rightarrow> (failure_value h e, None, c)))
              else (v, None, c)))"

section \<open>The request handler: \<^verbatim>\<open>fetch\<close>\<close>

text \<open>
  What lines 31 to 137 leave for the rest of the handler: the query, the clamped variables,
  the TTL, the hash key, the URL of the synthetic cache request and the force-fresh flag.
\<close>

record parsed_request =
  p_query :: string
  p_variables :: json
  p_ttl :: nat
  p_hashKey :: string
  p_cacheUrl :: string
  p_forceFresh :: bool

datatype 'a flow = Throws exn | Returns response | Goes_on 'a

text \<open>\<^verbatim>\<open>return\<close> of a response whose construction may throw.\<close>

definition reply :: "exn + response \<Rightarrow> 'a flow" where
  "reply x = (case x of Inl e \<Rightarrow> Throws e | Inr r \<Rightarrow> Returns r)"

text \<open>\<^verbatim>\<open>withCors(new Response(text, { status }))\<close>.\<close>

definition plain_response :: "host \<Rightarrow> string \<Rightarrow> nat \<Rightarrow> exn + response" where
  "plain_response h t st = and_then (new_Response h (Some t) st []) (withCors h)"

text \<open>\<^verbatim>\<open>String(e)\<close> on an exception.\<close>

definition exn_name :: "exn \<Rightarrow> string" where
  "exn_name e =
     (case e of Error m \<Rightarrow> ''Error'' | TypeError m \<Rightarrow> ''TypeError'' | RangeError m \<Rightarrow> ''RangeError'')"

definition String_of_exn :: "exn \<Rightarrow> string" where
  "String_of_exn e = (if message e = [] then exn_name e else exn_name e @ '': '' @ message e)"

text \<open>
  The \<^verbatim>\<open>/meta\<close> endpoint (lines 41 to 87). The inner \<^verbatim>\<open>try\<close> covers the call, the construction
  of the response and \<^verbatim>\<open>withCors\<close>.
\<close>

definition meta_endpoint :: "host \<Rightarrow> Env \<Rightarrow> world \<Rightarrow> exn + response" where
  "meta_endpoint h env w =
     (if SUBGRAPH_URL env = [] then plain_response h ''Missing SUBGRAPH_URL'' 500
      else
        (let cc = cacheControlEdgeOnly 3 in
         case (case probe w of
                 Inl e \<Rightarrow> Inl e
               | Inr up \<Rightarrow>
                   and_then
                     (new_Response h (Some (up_text up)) (up_status up)
                        (new_Headers
                           [(''content-type'',
                               (case up_content_type up of
                                  Some t \<Rightarrow> normalize_value t
                                | None \<Rightarrow> ''application/json'')),
                            (''Cache-Control'', cc),
                            (''CDN-Cache-Control'', cc),
                            (''X-Cache'', ''MISS'')]))
                     (withCors h)) of
           Inr r \<Rightarrow> Inr r
         | Inl e \<Rightarrow>
             and_then
               (new_Response h
                  (Some (JSON_stringify h (JObj
                     [(''error'', JStr ''UPSTREAM_FETCH_FAILED''),
                      (''message'', JStr (String_of_exn e))])))
                  (if isAbortTimeout e then 504 else 502)
                  (new_Headers [(''content-type'', ''application/json'')]))
               (withCors h)))"

text \<open>
  \<^verbatim>\<open>cacheUrl\<close>: the request URL with the path replaced and the query string removed.
\<close>

definition cacheUrlFor :: "url \<Rightarrow> string \<Rightarrow> string" where
  "cacheUrlFor reqUrl hashKey =
     url_toString (reqUrl\<lparr>pathname := ''/__cache/'' @ hashKey, search := []\<rparr>)"

definition body_query :: "json \<Rightarrow> string" where
  "body_query b = (case get_prop b ''query'' of Some (JStr q) \<Rightarrow> q | _ \<Rightarrow> [])"

definition body_variables :: "json \<Rightarrow> json" where
  "body_variables b =
     (case get_prop b ''variables'' of
        Some (JObj kvs) \<Rightarrow> JObj kvs
      | Some (JArr xs) \<Rightarrow> JArr xs
      | _ \<Rightarrow> JObj [])"

text \<open>
  Lines 100 to 137: the force-fresh flag, the body, the clamp, the TTL and the cache key. A
  body that is not JSON is answered with 400 by the inner \<^verbatim>\<open>try\<close>. The steps that can throw
  are \<^verbatim>\<open>await req.text()\<close> and the three recursions on the variables: \<^verbatim>\<open>walk\<close> on the
  variables as received, \<^verbatim>\<open>helper\<close> on the object to hash, and \<^verbatim>\<open>JSON.stringify\<close> on what
  \<^verbatim>\<open>helper\<close> returns.
\<close>

definition read_request :: "host \<Rightarrow> request \<Rightarrow> parsed_request flow" where
  "read_request h req =
     (let forceFresh =
            (String_trim h (or_default (headers_get (req_headers req) FORCE_FRESH_HEADER) []) = ''1'')
      in case req_text req of
           Inl e \<Rightarrow> Throws e
         | Inr raw \<Rightarrow>
             (case (if raw \<noteq> [] then JSON_parse h raw else Some (JObj [])) of
                None \<Rightarrow> reply (plain_response h ''Bad JSON'' 400)
              | Some b \<Rightarrow>
                  (let query = body_query b;
                       variables = body_variables b
                   in if query = [] then reply (plain_response h ''Missing query'' 400)
                      else if length query > 60000 then
                        reply (plain_response h ''Query too large'' 413)
                      else if exhausts h In_walk (depth variables) then Throws (stack_overflow h)
                      else
                        (let keyed = JObj [(''v'', JNum (Fin 7)), (''query'', JStr query),
                                           (''variables'', clampPagination h variables)]
                         in if exhausts h In_helper (depth keyed) then Throws (stack_overflow h)
                            else if exhausts h In_stringify (depth (helper keyed)) then
                              Throws (stack_overflow h)
                            else
                              (let hashKey = cache_key h query variables in
                               Goes_on
                                 \<lparr>p_query = query,
                                  p_variables = clampPagination h variables,
                                  p_ttl = pickTtlSeconds query,
                                  p_hashKey = hashKey,
                                  p_cacheUrl = cacheUrlFor (req_url req) hashKey,
                                  p_forceFresh = forceFresh\<rparr>)))))"

text \<open>Lines 31 to 137: the routes that answer at once, then \<open>read_request\<close>.\<close>

definition prepare :: "host \<Rightarrow> Env \<Rightarrow> world \<Rightarrow> request \<Rightarrow> parsed_request flow" where
  "prepare h env w req =
     (if req_method req = ''OPTIONS'' then reply (handleOptions h req)
      else if pathname (req_url req) = ''/health'' then reply (plain_response h ''ok'' 200)
      else if pathname (req_url req) = ''/meta'' then reply (meta_endpoint h env w)
      else if pathname (req_url req) \<noteq> ''/graphql'' then reply (plain_response h ''Not found'' 404)
      else if req_method req \<noteq> ''POST'' then reply (plain_response h ''Method not allowed'' 405)
      else if SUBGRAPH_URL env = [] then reply (plain_response h ''Missing SUBGRAPH_URL'' 500)
      else read_request h req)"

text \<open>The response for a cache hit (lines 146 to 151).\<close>

definition hit_response :: "host \<Rightarrow> response \<Rightarrow> nat \<Rightarrow> exn + response" where
  "hit_response h cached ttl =
     (let cc = cacheControlEdgeOnly ttl in
      and_then
        (addHeaders h cached
           [(''Cache-Control'', cc), (''CDN-Cache-Control'', cc), (''X-Cache'', ''HIT'')])
        (withCors h))"

text \<open>
  The response built from the value of the in-flight promise: by a handler that found the
  promise in the map (lines 161 to 163), or by the one that created it (lines 237 to 239).
\<close>

definition answer_response :: "host \<Rightarrow> InflightValue \<Rightarrow> parsed_request \<Rightarrow> bool \<Rightarrow> exn + response" where
  "answer_response h v p creator =
     and_then
       (makeTextResponse h v (p_ttl p)
          (if creator then (if p_forceFresh p then BYPASS else MISS)
           else (if p_forceFresh p then COALESCED_BYPASS else COALESCED)))
       (withCors h)"

text \<open>
  Lines 142 to 156: the response for a hit, if the handler returns one. A rejection of
  \<^verbatim>\<open>cache.match\<close> and an exception thrown while the hit is built are logged, and the handler
  goes on as after a miss.
\<close>

definition lookup :: "host \<Rightarrow> bool \<Rightarrow> cache \<Rightarrow> parsed_request \<Rightarrow> response option" where
  "lookup h throws c p =
     (if p_forceFresh p \<or> throws then None
      else (case c (p_cacheUrl p) of
              None \<Rightarrow> None
            | Some cached \<Rightarrow>
                (case hit_response h cached (p_ttl p) of Inr hit \<Rightarrow> Some hit | Inl e \<Rightarrow> None)))"

text \<open>
  The result of one run of the handler: the response or the exception, the cache as the run
  leaves it, the write handed to \<^verbatim>\<open>ctx.waitUntil\<close>, and whether the run made the upstream
  attempt for the query.
\<close>

record outcome =
  resp :: "exn + response"
  cache_after :: cache
  scheduled :: "(string \<times> response) option"
  called_upstream :: bool

text \<open>
  Lines 139 to 239 for a handler that runs with the answers of \<open>w\<close>. The in-flight map gives,
  for a key with a pending promise, the value that promise resolves to.
\<close>

definition proxy ::
    "host \<Rightarrow> world \<Rightarrow> cache \<Rightarrow> (string \<Rightarrow> InflightValue option) \<Rightarrow> parsed_request \<Rightarrow> outcome" where
  "proxy h w c inflight p =
     (case lookup h (match_throws w) c p of
        Some hit \<Rightarrow>
          \<lparr>resp = Inr hit, cache_after = c, scheduled = None, called_upstream = False\<rparr>
      | None \<Rightarrow>
          (case inflight (p_hashKey p) of
             Some v \<Rightarrow>
               \<lparr>resp = answer_response h v p False, cache_after = c, scheduled = None,
                called_upstream = False\<rparr>
           | None \<Rightarrow>
               (case attempt h w c (p_hashKey p) (p_ttl p) (p_forceFresh p) of
                  (v, toCache, c') \<Rightarrow>
                    \<lparr>resp = answer_response h v p True, cache_after = c',
                     scheduled = map_option (\<lambda>r. (p_cacheUrl p, r)) toCache,
                     called_upstream = True\<rparr>)))"

text \<open>The body of the outer \<^verbatim>\<open>try\<close> (lines 30 to 239).\<close>

definition fetch_try ::
    "host \<Rightarrow> Env \<Rightarrow> world \<Rightarrow> cache \<Rightarrow> (string \<Rightarrow> InflightValue option) \<Rightarrow> request \<Rightarrow> outcome" where
  "fetch_try h env w c inflight req =
     (case prepare h env w req of
        Throws e \<Rightarrow>
          \<lparr>resp = Inl e, cache_after = c, scheduled = None, called_upstream = False\<rparr>
      | Returns r \<Rightarrow>
          \<lparr>resp = Inr r, cache_after = c, scheduled = None, called_upstream = False\<rparr>
      | Goes_on p \<Rightarrow> proxy h w c inflight p)"

text \<open>The response of the outer \<^verbatim>\<open>catch\<close> (lines 241 to 249).\<close>

definition internal_error :: "host \<Rightarrow> exn \<Rightarrow> exn + response" where
  "internal_error h e =
     and_then
       (new_Response h
          (Some (JSON_stringify h (JObj
             [(''error'', JStr ''WORKER_INTERNAL_ERROR''), (''message'', JStr (message e))])))
          500
          (new_Headers [(''content-type'', ''application/json'')]))
       (withCors h)"

text \<open>What the outer \<^verbatim>\<open>try\<close> and \<^verbatim>\<open>catch\<close> make of a result: an exception is answered with 500.\<close>

definition caught :: "host \<Rightarrow> exn + response \<Rightarrow> exn + response" where
  "caught h x = (case x of Inl e \<Rightarrow> internal_error h e | Inr r \<Rightarrow> Inr r)"

text \<open>
  The handler. Its result is \<open>Inr\<close> of the response that the promise of \<^verbatim>\<open>fetch\<close> resolves to, or
  \<open>Inl\<close> of the exception that the promise rejects with.
\<close>

definition fetch ::
    "host \<Rightarrow> Env \<Rightarrow> world \<Rightarrow> cache \<Rightarrow> (string \<Rightarrow> InflightValue option) \<Rightarrow> request \<Rightarrow> outcome" where
  "fetch h env w c inflight req =
     (let out = fetch_try h env w c inflight req in out\<lparr>resp := caught h (resp out)\<rparr>)"

section \<open>Handlers running concurrently\<close>

text \<open>
  The handlers of one isolate share the map \<^verbatim>\<open>inflight\<close> and the cache and run interleaved:
  a handler runs without interruption from one \<^verbatim>\<open>await\<close> to the next. The events are
  \<^item> \<open>Start rid p\<close>: the handler of a new request \<open>rid\<close> starts; \<open>p\<close> is what lines 31 to 137
    derive for the request, and the handler awaits the body, the digest and the cache lookup;
  \<^item> \<open>Resume rid throws\<close>: it resumes with the result of the lookup and runs lines 142 to
    235 up to its next \<^verbatim>\<open>await\<close>: on a hit it answers; otherwise it awaits the promise found
    in the map, or creates the promise, which starts the upstream call, and stores it;
  \<^item> \<open>Settle key w\<close>: the upstream attempt behind the promise of \<open>key\<close> ends with the answers
    of \<open>w\<close>; the \<^verbatim>\<open>finally\<close> callback deletes the entry and every handler awaiting the promise
    answers;
  \<^item> \<open>Land n success\<close>: the \<open>n\<close>-th write handed to \<^verbatim>\<open>ctx.waitUntil\<close> ends.
  The promise is created and stored in one uninterrupted run, and the \<^verbatim>\<open>finally\<close> callback
  runs in a later turn of the job queue, so the entry is always stored before it is deleted.
  A handler is answered with what its promise settles to: the response, or the 500 response
  of the outer \<^verbatim>\<open>catch\<close>.
\<close>

record process =
  inflight_map :: "string \<Rightarrow> parsed_request option"
  active :: "string \<Rightarrow> nat"
  calls :: "string \<Rightarrow> nat"
  edge :: cache
  writes :: "(string \<times> response) list"
  started :: "nat \<Rightarrow> parsed_request option"
  awaiting :: "nat \<Rightarrow> (parsed_request \<times> bool) option"
  answered :: "nat \<Rightarrow> (InflightValue option \<times> (exn + response)) option"

datatype event =
    Start nat parsed_request
  | Resume nat bool
  | Settle string world
  | Land nat bool

definition init_process :: process where
  "init_process =
     \<lparr>inflight_map = (\<lambda>k. None), active = (\<lambda>k. 0), calls = (\<lambda>k. 0), edge = (\<lambda>u. None),
      writes = [], started = (\<lambda>r. None), awaiting = (\<lambda>r. None), answered = (\<lambda>r. None)\<rparr>"

definition awaits_key :: "process \<Rightarrow> string \<Rightarrow> nat \<Rightarrow> bool" where
  "awaits_key s key rid =
     (case awaiting s rid of Some (p, creator) \<Rightarrow> p_hashKey p = key | None \<Rightarrow> False)"

text \<open>Every request has a handler of its own: \<open>fresh s rid\<close> says that \<open>rid\<close> names no request yet.\<close>

definition fresh :: "process \<Rightarrow> nat \<Rightarrow> bool" where
  "fresh s rid = (started s rid = None \<and> awaiting s rid = None \<and> answered s rid = None)"

fun step :: "host \<Rightarrow> process \<Rightarrow> event \<Rightarrow> process option" where
  "step h s (Start rid p) =
     (if fresh s rid then Some (s\<lparr>started := (started s)(rid \<mapsto> p)\<rparr>) else None)"
| "step h s (Resume rid throws) =
     (case started s rid of
        None \<Rightarrow> None
      | Some p \<Rightarrow>
          (let s1 = s\<lparr>started := (started s)(rid := None)\<rparr> in
           case lookup h throws (edge s) p of
             Some hit \<Rightarrow>
               Some (s1\<lparr>answered := (answered s)(rid \<mapsto> (None, Inr hit))\<rparr>)
           | None \<Rightarrow>
               (case inflight_map s (p_hashKey p) of
                  Some p0 \<Rightarrow> Some (s1\<lparr>awaiting := (awaiting s)(rid \<mapsto> (p, False))\<rparr>)
                | None \<Rightarrow>
                    Some (s1\<lparr>inflight_map := (inflight_map s)(p_hashKey p \<mapsto> p),
                             active := (active s)(p_hashKey p := active s (p_hashKey p) + 1),
                             calls := (calls s)(p_hashKey p := calls s (p_hashKey p) + 1),
                             awaiting := (awaiting s)(rid \<mapsto> (p, True))\<rparr>))))"
| "step h s (Settle key w) =
     (case inflight_map s key of
        None \<Rightarrow> None
      | Some p0 \<Rightarrow>
          (case attempt h w (edge s) key (p_ttl p0) (p_forceFresh p0) of
             (v, toCache, c') \<Rightarrow>
               Some (s\<lparr>inflight_map := (inflight_map s)(key := None),
                       active := (active s)(key := active s key - 1),
                       edge := c',
                       writes := writes s @ (case toCache of None \<Rightarrow> [] | Some r \<Rightarrow> [(p_cacheUrl p0, r)]),
                       awaiting := (\<lambda>rid. if awaits_key s key rid then None else awaiting s rid),
                       answered := (\<lambda>rid. case awaiting s rid of
                                       None \<Rightarrow> answered s rid
                                     | Some (p, creator) \<Rightarrow>
                                         if p_hashKey p = key
                                         then Some (Some v, caught h (answer_response h v p creator))
                                         else answered s rid)\<rparr>)))"
| "step h s (Land n success) =
     (if n < length (writes s) then
        Some (s\<lparr>writes := take n (writes s) @ drop (Suc n) (writes s),
                edge := (if success then (edge s)(fst (writes s ! n) \<mapsto> snd (writes s ! n))
                         else edge s)\<rparr>)
      else None)"

fun run :: "host \<Rightarrow> process \<Rightarrow> event list \<Rightarrow> process option" where
  "run h s [] = Some s"
| "run h s (e # es) = (case step h s e of None \<Rightarrow> None | Some s' \<Rightarrow> run h s' es)"

section \<open>Properties stated about the model\<close>

subsection \<open>An example host\<close>

text \<open>
  The examples below are evaluated with a host whose \<^verbatim>\<open>Number\<close> and \<^verbatim>\<open>String\<close> are given on
  the unsigned decimal numerals, whose \<^verbatim>\<open>trim\<close> is that of strings of code units below 256,
  whose \<^verbatim>\<open>JSON.parse\<close> is a table of the texts used, and whose digest is the text itself. Its stack is never exhausted, and its \<^verbatim>\<open>Response\<close> constructor
  follows the Fetch standard. The theorems hold for every host.
\<close>

text \<open>
  Among the code units below 256 the white space and the line terminators are U+0009 to
  U+000D, the space and the no-break space U+00A0.
\<close>

definition is_space :: "char \<Rightarrow> bool" where
  "is_space c = (let n = (of_char c :: nat) in n = 32 \<or> (9 \<le> n \<and> n \<le> 13) \<or> n = 160)"

definition trim :: "string \<Rightarrow> string" where
  "trim s = rev (dropWhile is_space (rev (dropWhile is_space s)))"

definition example_message :: "fault \<Rightarrow> string" where
  "example_message f =
     (case f of
        Stack_exhausted \<Rightarrow> ''Maximum call stack size exceeded''
      | Status_out_of_range \<Rightarrow> ''The status must be in the range of 200 to 599''
      | Null_body_status \<Rightarrow> ''A response with a null body status cannot have a body'')"

definition example_host :: "(string \<times> json) list \<Rightarrow> host" where
  "example_host tbl =
     \<lparr>Number_of = (\<lambda>s. if s \<noteq> [] \<and> list_all is_digit s
                         then Some (Fin (of_int (digits_val s))) else None),
      Number_toString = (\<lambda>r. if 0 \<le> r \<and> of_int \<lfloor>r\<rfloor> = r then show_nat (nat \<lfloor>r\<rfloor>) else ''?''),
      String_trim = trim,
      JSON_parse = map_of tbl,
      sha256Hex = (\<lambda>t. t),
      exhausts = (\<lambda>site d. False),
      fault_message = example_message,
      empty_body_is_null = False\<rparr>"

definition example_body :: string where
  "example_body =
     ''{\"query\":\"query LotteryById($id: ID!) { lottery(id: $id) { id } }\",\"variables\":{\"id\":\"42\",\"first\":\"9999\"}}''"

definition example_data :: string where
  "example_data = ''{\"data\":{\"lottery\":{\"id\":\"42\"}}}''"

definition example_meta :: string where
  "example_meta = ''{\"data\":{\"_meta\":{\"block\":{\"number\":99}}}}''"

definition example_errors :: string where
  "example_errors = ''{\"errors\":[{\"message\":\"boom\"}]}''"

definition example_texts :: "(string \<times> json) list" where
  "example_texts =
     [(example_body,
       JObj [(''query'', JStr ''query LotteryById($id: ID!) { lottery(id: $id) { id } }''),
             (''variables'', JObj [(''id'', JStr ''42''), (''first'', JStr ''9999'')])]),
      (example_data,
       JObj [(''data'', JObj [(''lottery'', JObj [(''id'', JStr ''42'')])])]),
      (example_meta,
       JObj [(''data'', JObj [(''_meta'', JObj [(''block'', JObj [(''number'', JNum (Fin 99))])])])]),
      (example_errors,
       JObj [(''errors'', JArr [JObj [(''message'', JStr ''boom'')]])])]"

definition example_request :: "string \<Rightarrow> string \<Rightarrow> request" where
  "example_request query_string force =
     \<lparr>req_method = ''POST'',
      req_url = \<lparr>origin = ''https://cache.example'', pathname = ''/graphql'', search = query_string\<rparr>,
      req_headers = [(''x-force-fresh'', force)],
      req_text = Inr example_body\<rparr>"

definition example_env :: Env where
  "example_env = \<lparr>SUBGRAPH_URL = ''https://subgraph.example''\<rparr>"

text \<open>A world in which the upstream answers the query with \<open>example_data\<close>.\<close>

definition example_world :: "(exn + upstream_response) \<Rightarrow> world" where
  "example_world pr =
     \<lparr>upstream = Inr \<lparr>up_status = 200, up_content_type = Some ''application/json'',
                       up_text = example_data\<rparr>,
      probe = pr, match_throws = False, meta_match_throws = False, meta_put_throws = False\<rparr>"

text \<open>A cache without entries and an in-flight map without promises.\<close>

definition empty_cache :: cache where
  "empty_cache = (\<lambda>u. None)"

definition nothing_in_flight :: "string \<Rightarrow> InflightValue option" where
  "nothing_in_flight = (\<lambda>k. None)"

text \<open>
  A world in which the upstream answers 200 with the media type of GraphQL over HTTP and a
  payload of errors, and one in which it answers 204 with no content; in both the \<^verbatim>\<open>__Meta\<close>
  call fails.
\<close>

definition example_world_errors :: world where
  "example_world_errors =
     \<lparr>upstream = Inr \<lparr>up_status = 200,
                       up_content_type = Some ''application/graphql-response+json'',
                       up_text = example_errors\<rparr>,
      probe = Inl (Error ''timeout''), match_throws = False, meta_match_throws = False,
      meta_put_throws = False\<rparr>"


text \<open>
  A host like the example host, but whose stack holds no recursion into a nested value, and
  a world in which the upstream answers 304 with no content.
\<close>

definition shallow_host :: host where
  "shallow_host = (example_host example_texts)\<lparr>exhausts := (\<lambda>site d. 0 < d)\<rparr>"

definition example_world_not_modified :: world where
  "example_world_not_modified =
     \<lparr>upstream = Inr \<lparr>up_status = 304, up_content_type = None, up_text = []\<rparr>,
      probe = Inl (Error ''timeout''), match_throws = False, meta_match_throws = False,
      meta_put_throws = False\<rparr>"

subsection \<open>Bounds after clamping\<close>

definition in_range :: "int \<Rightarrow> int \<Rightarrow> json \<Rightarrow> bool" where
  "in_range lo hi v =
     (case v of JNum (Fin r) \<Rightarrow> of_int lo \<le> r \<and> r \<le> of_int hi | _ \<Rightarrow> False)"

definition seq_len_ok :: "json \<Rightarrow> bool" where
  "seq_len_ok v = (case v of JArr xs \<Rightarrow> length xs \<le> 200 | _ \<Rightarrow> True)"

text \<open>
  \<open>clamped v\<close>: in every object of the tree \<open>v\<close>, a \<^verbatim>\<open>first\<close> is a finite number in \<open>[1, 200]\<close>,
  a \<^verbatim>\<open>skip\<close> is a finite number in \<open>[0, 100000]\<close>, and an array under a key \<^verbatim>\<open>ids\<close> or
  \<^verbatim>\<open>*Ids\<close> has at most 200 elements.
\<close>

fun clamped :: "json \<Rightarrow> bool" where
  "clamped (JObj kvs) =
     list_all (\<lambda>(k, v).
        (k = ''first'' \<longrightarrow> in_range 1 200 v) \<and>
        (k = ''skip'' \<longrightarrow> in_range 0 100000 v) \<and>
        (is_ids_key k \<longrightarrow> seq_len_ok v) \<and>
        clamped v) kvs"
| "clamped (JArr xs) = list_all clamped xs"
| "clamped v = True"

text \<open>
  A value that gives no finite number: a non-finite number, a string whose \<^verbatim>\<open>Number\<close> is
  \<^verbatim>\<open>NaN\<close> or infinite, a boolean, \<^verbatim>\<open>null\<close>, an object or an array.
\<close>

definition unparsable :: "host \<Rightarrow> json \<Rightarrow> bool" where
  "unparsable h v =
     (case v of
        JNum n \<Rightarrow> \<not> isFinite n
      | JStr s \<Rightarrow> (case Number_of h s of Some (Fin r) \<Rightarrow> False | _ \<Rightarrow> True)
      | _ \<Rightarrow> True)"

definition obj_entries :: "json \<Rightarrow> (string \<times> json) list" where
  "obj_entries v = (case v of JObj kvs \<Rightarrow> kvs | _ \<Rightarrow> [])"

subsection \<open>Well-formed responses\<close>

text \<open>
  A response as the constructor builds it: the status is in 200 to 599, and with a null-body
  status there is no body.
\<close>

definition well_formed :: "response \<Rightarrow> bool" where
  "well_formed r =
     (200 \<le> r_status r \<and> r_status r \<le> 599 \<and> (null_body_status (r_status r) \<longrightarrow> r_body r = []))"

text \<open>The body of the response of the outer \<^verbatim>\<open>catch\<close> for the exception \<open>e\<close>.\<close>

definition internal_error_body :: "host \<Rightarrow> exn \<Rightarrow> string" where
  "internal_error_body h e =
     JSON_stringify h (JObj
       [(''error'', JStr ''WORKER_INTERNAL_ERROR''), (''message'', JStr (message e))])"

subsection \<open>The TTL rules as a table\<close>

text \<open>
  The patterns of \<^verbatim>\<open>pickTtlSeconds\<close> in the order in which they are tried, each with its TTL;
  the first pattern that occurs in the lower-cased query decides, and 8 is the default.
\<close>

definition ttl_rules :: "(string \<times> nat) list" where
  "ttl_rules =
     [(''query globalfeed'', 3),
      (''_meta'', 3),
      (''query __meta'', 3),
      (''query globalstats'', 8),
      (''query globalstatsbillboard'', 8),
      (''query homelotteries'', 8),
      (''query lotterybyid'', 15),
      (''query userlotteriesbyuser'', 15),
      (''query userlotteriesbylottery'', 15),
      (''query lotteriesbycreator'', 20),
      (''query lotteriesbyfeerecipient'', 20)]"

definition first_match :: "string \<Rightarrow> nat" where
  "first_match q =
     (case find (\<lambda>(pat, t). includesStr q pat) ttl_rules of
        Some (pat, t) \<Rightarrow> t
      | None \<Rightarrow> 8)"

subsection \<open>Values that differ in the order of object keys\<close>

text \<open>
  \<open>key_order_equiv a b\<close>: \<open>a\<close> and \<open>b\<close> are the same value up to the order in which the keys of
  their objects, at any depth, were inserted.
\<close>

inductive key_order_equiv :: "json \<Rightarrow> json \<Rightarrow> bool" where
  eq_null: "key_order_equiv JNull JNull"
| eq_bool: "key_order_equiv (JBool b) (JBool b)"
| eq_num: "key_order_equiv (JNum n) (JNum n)"
| eq_str: "key_order_equiv (JStr s) (JStr s)"
| eq_arr: "list_all2 key_order_equiv xs ys \<Longrightarrow> key_order_equiv (JArr xs) (JArr ys)"
| eq_obj: "distinct (map fst xs) \<Longrightarrow> distinct (map fst ys) \<Longrightarrow>
           set (map fst xs) = set (map fst ys) \<Longrightarrow>
           (\<forall>k v w. (k, v) \<in> set xs \<and> (k, w) \<in> set ys \<longrightarrow> key_order_equiv v w) \<Longrightarrow>
           key_order_equiv (JObj xs) (JObj ys)"

subsection \<open>Runs of concurrent handlers\<close>

text \<open>
  \<open>coherent s k\<close>: the number of upstream calls in flight for the key \<open>k\<close> is 1 when the map
  holds a promise for \<open>k\<close> and 0 otherwise.
\<close>

definition coherent :: "process \<Rightarrow> string \<Rightarrow> bool" where
  "coherent s k = (active s k = (if inflight_map s k = None then 0 else 1))"

text \<open>
  \<open>exclusive s rid\<close>: a handler that has not reached the in-flight map yet awaits no promise.
\<close>

definition exclusive :: "process \<Rightarrow> nat \<Rightarrow> bool" where
  "exclusive s rid = (started s rid = None \<or> awaiting s rid = None)"

text \<open>\<open>quiet key e\<close>: the event \<open>e\<close> is not the end of the upstream attempt for \<open>key\<close>.\<close>

definition quiet :: "string \<Rightarrow> event \<Rightarrow> bool" where
  "quiet key e = (case e of Settle k w \<Rightarrow> k \<noteq> key | _ \<Rightarrow> True)"

text \<open>The value a request was answered with.\<close>

definition outcome_of :: "process \<Rightarrow> nat \<Rightarrow> InflightValue option" where
  "outcome_of s rid = (case answered s rid of Some (Some v, r) \<Rightarrow> Some v | _ \<Rightarrow> None)"

text \<open>
  \<open>same_outcome h s rid v\<close>: request \<open>rid\<close> was answered from the value \<open>v\<close>: with the status,
  content type and body of \<open>v\<close> or, when the constructor builds no response from \<open>v\<close>, with the
  500 response for its exception.
\<close>

definition same_outcome :: "host \<Rightarrow> process \<Rightarrow> nat \<Rightarrow> InflightValue \<Rightarrow> bool" where
  "same_outcome h s rid v =
     (case answered s rid of
        Some (Some v', Inr r) \<Rightarrow>
          v' = v \<and>
          (case Response_fault h (Some (iv_text v)) (iv_status v) of
             None \<Rightarrow>
               r_status r = iv_status v \<and> r_body r = iv_text v \<and>
               headers_get (r_headers r) ''content-type'' = Some (iv_contentType v)
           | Some e \<Rightarrow>
               r_status r = 500 \<and> r_body r = internal_error_body h e \<and>
               headers_get (r_headers r) ''content-type'' = Some ''application/json'')
      | _ \<Rightarrow> False)"

text \<open>
  The value a request was answered with, and the number of upstream calls made for a key,
  after a run from the initial state.
\<close>

definition outcome_after :: "host \<Rightarrow> event list \<Rightarrow> nat \<Rightarrow> InflightValue option" where
  "outcome_after h es rid =
     (case run h init_process es of None \<Rightarrow> None | Some s \<Rightarrow> outcome_of s rid)"

definition calls_after :: "host \<Rightarrow> event list \<Rightarrow> string \<Rightarrow> nat option" where
  "calls_after h es key =
     (case run h init_process es of None \<Rightarrow> None | Some s \<Rightarrow> Some (calls s key))"

text \<open>An example request after key derivation, not forced, with the key \<^verbatim>\<open>k1\<close>.\<close>

definition example_parsed :: parsed_request where
  "example_parsed =
     \<lparr>p_query = ''query LotteryById($id: ID!) { lottery(id: $id) { id } }'',
      p_variables = JObj [(''id'', JStr ''42''), (''first'', JNum (Fin 200))],
      p_ttl = 15,
      p_hashKey = ''k1'',
      p_cacheUrl = ''https://cache.example/__cache/k1'',
      p_forceFresh = False\<rparr>"

text \<open>A world in which the upstream call for the query fails: the connection is refused.\<close>

definition example_world_down :: world where
  "example_world_down =
     \<lparr>upstream = Inl (Error ''connection refused''), probe = Inl (Error ''connection refused''),
      match_throws = False, meta_match_throws = False, meta_put_throws = False\<rparr>"

text \<open>
  Two handlers for the same key that overlap in time: both have started before either
  reaches the in-flight map. The first finds no promise, calls the upstream and fails; the
  second resumes after that promise has settled.
\<close>

definition example_overlap :: "event list" where
  "example_overlap =
     [Start 1 example_parsed, Start 2 example_parsed,
      Resume 1 False, Settle ''k1'' example_world_down,
      Resume 2 False, Settle ''k1'' (example_world (Inl (Error ''down'')))]"

section \<open>Proofs\<close>

subsection \<open>Pagination clamp\<close>

lemma clampInt_bounds: "lo \<le> hi \<Longrightarrow> lo \<le> clampInt n lo hi \<and> clampInt n lo hi \<le> hi"
  by (cases n) (auto simp: clampInt_def)

lemma clampNumberish_bounds:
  "lo \<le> hi \<Longrightarrow> lo \<le> clampNumberish h v lo hi \<and> clampNumberish h v lo hi \<le> hi"
  using clampInt_bounds[of lo hi]
  by (auto simp: clampNumberish_def split: json.splits option.splits jsnum.splits)

lemma in_range_clampNumberish:
  "lo \<le> hi \<Longrightarrow> in_range lo hi (JNum (Fin (of_int (clampNumberish h v lo hi))))"
  using clampNumberish_bounds[of lo hi h v] by (simp add: in_range_def)

lemma clamped_slice0: "clamped v \<Longrightarrow> clamped (slice0 n v)"
  by (cases v) (auto simp: slice0_def list_all_iff dest: in_set_takeD)

lemma seq_len_ok_slice0: "seq_len_ok (slice0 200 v)"
  by (cases v) (auto simp: slice0_def seq_len_ok_def)

lemma not_ids_first: "\<not> is_ids_key ''first''" "\<not> is_ids_key ''skip''"
  by (simp_all add: is_ids_key_def endsWith_def)

lemma seq_len_ok_walk_nonarray: "\<not> isArray v \<Longrightarrow> seq_len_ok (walk h v)"
  by (cases v) (auto simp: isArray_def seq_len_ok_def)

lemma clamped_walk: "clamped (walk h v)"
proof (induction v)
  case (JArr xs)
  then show ?case by (simp add: list_all_iff)
next
  case (JObj kvs)
  have "clamped (walk h v)" if "(k, v) \<in> set kvs" for k v
    using JObj that by (metis snd_conv snds.intros)
  then show ?case
    by (auto simp: list_all_iff in_range_clampNumberish clamped_slice0 seq_len_ok_slice0
        not_ids_first seq_len_ok_walk_nonarray)
qed simp_all

lemma clampNumberish_unparsable: "unparsable h v \<Longrightarrow> clampNumberish h v lo hi = lo"
  by (auto simp: unparsable_def clampNumberish_def clampInt_def isFinite_def
      split: json.splits option.splits jsnum.splits)

lemma walk_entry_first:
  "i < length kvs \<Longrightarrow> kvs ! i = (''first'', v) \<Longrightarrow>
   obj_entries (walk h (JObj kvs)) ! i = (''first'', JNum (Fin (of_int (clampNumberish h v 1 200))))"
  by (simp add: obj_entries_def)

lemma walk_entry_skip:
  "i < length kvs \<Longrightarrow> kvs ! i = (''skip'', v) \<Longrightarrow>
   obj_entries (walk h (JObj kvs)) ! i = (''skip'', JNum (Fin (of_int (clampNumberish h v 0 100000))))"
  by (simp add: obj_entries_def)

text \<open>
  Claim C6. After \<^verbatim>\<open>clampPagination\<close>, at every depth of the variables tree, each \<^verbatim>\<open>first\<close> is
  a number in \<open>[1, 200]\<close>, each \<^verbatim>\<open>skip\<close> a number in \<open>[0, 100000]\<close>, and each array under
  \<^verbatim>\<open>ids\<close> or \<^verbatim>\<open>*Ids\<close> has at most 200 elements. Moreover, in any object that the walk visits, a
  \<^verbatim>\<open>first\<close> or \<^verbatim>\<open>skip\<close> whose value is non-finite or not parsable as a finite number (a
  non-numeric string, a boolean, an object, an array, \<^verbatim>\<open>null\<close>) is replaced by the minimum of
  its range, 1 or 0.
\<close>

theorem clampPagination_bounds:
  "clamped (clampPagination h variables) \<and>
   (i < length kvs \<and> unparsable h v \<longrightarrow>
      (kvs ! i = (''first'', v) \<longrightarrow>
         obj_entries (walk h (JObj kvs)) ! i = (''first'', JNum (Fin 1))) \<and>
      (kvs ! i = (''skip'', v) \<longrightarrow>
         obj_entries (walk h (JObj kvs)) ! i = (''skip'', JNum (Fin 0))))"
proof -
  have "clamped (clampPagination h variables)"
    by (simp add: clampPagination_def clamped_walk)
  moreover have "obj_entries (walk h (JObj kvs)) ! i = (''first'', JNum (Fin 1))"
    if "i < length kvs" "unparsable h v" "kvs ! i = (''first'', v)"
    using walk_entry_first[OF that(1) that(3), of h] clampNumberish_unparsable[OF that(2), of 1 200]
    by simp
  moreover have "obj_entries (walk h (JObj kvs)) ! i = (''skip'', JNum (Fin 0))"
    if "i < length kvs" "unparsable h v" "kvs ! i = (''skip'', v)"
    using walk_entry_skip[OF that(1) that(3), of h] clampNumberish_unparsable[OF that(2), of 0 100000]
    by simp
  ultimately show ?thesis by blast
qed

theorem clampPagination_bounds_witness:
  "(1::nat) < length [(''id'', JStr ''42''), (''first'', JBool True)] \<and>
   unparsable (example_host []) (JBool True) \<and>
   [(''id'', JStr ''42''), (''first'', JBool True)] ! 1 = (''first'', JBool True) \<and>
   clamped (clampPagination (example_host [])
     (JObj [(''id'', JStr ''42''), (''first'', JStr ''9999''), (''skip'', JNum (Fin (-3))),
            (''where'', JObj [(''lotteryIds'', JArr (replicate 201 JNull))])])) \<and>
   clampPagination (example_host [])
     (JObj [(''id'', JStr ''42''), (''first'', JStr ''9999''), (''skip'', JNum (Fin (-3))),
            (''where'', JObj [(''lotteryIds'', JArr (replicate 201 JNull))])]) =
     JObj [(''id'', JStr ''42''), (''first'', JNum (Fin 200)), (''skip'', JNum (Fin 0)),
           (''where'', JObj [(''lotteryIds'', JArr (replicate 200 JNull))])] \<and>
   obj_entries (walk (example_host []) (JObj [(''id'', JStr ''42''), (''first'', JBool True)])) ! 1 =
     (''first'', JNum (Fin 1))"
proof -
  have u: "unparsable (example_host []) (JBool True)"
    by (simp add: unparsable_def)
  have e: "clampPagination (example_host [])
     (JObj [(''id'', JStr ''42''), (''first'', JStr ''9999''), (''skip'', JNum (Fin (-3))),
            (''where'', JObj [(''lotteryIds'', JArr (replicate 201 JNull))])]) =
     JObj [(''id'', JStr ''42''), (''first'', JNum (Fin 200)), (''skip'', JNum (Fin 0)),
           (''where'', JObj [(''lotteryIds'', JArr (replicate 200 JNull))])]"
    by (simp add: clampPagination_def example_host_def clampNumberish_def clampInt_def
        is_ids_key_def endsWith_def isArray_def slice0_def trim_def is_space_def is_digit_def
        digits_val_def Math_trunc_def)
  show ?thesis
    using u e
      clampPagination_bounds[of "example_host []"
        "JObj [(''id'', JStr ''42''), (''first'', JStr ''9999''), (''skip'', JNum (Fin (-3))),
               (''where'', JObj [(''lotteryIds'', JArr (replicate 201 JNull))])]"
        1 "[(''id'', JStr ''42''), (''first'', JBool True)]" "JBool True"]
    by simp
qed

subsection \<open>TTL policy\<close>

text \<open>
  Claim C9, as amended. \<^verbatim>\<open>pickTtlSeconds\<close> lower-cases the query and returns the TTL of the
  first pattern of \<open>ttl_rules\<close> that occurs in it as a substring, and 8 when none occurs. The
  patterns \<^verbatim>\<open>_meta\<close> and \<^verbatim>\<open>query __meta\<close> (3 seconds) and the billboard and homepage patterns
  (8 seconds) are tried before \<^verbatim>\<open>query lotterybyid\<close> (15 seconds) and before the creator and
  fee-recipient patterns (20 seconds).
\<close>

theorem pickTtlSeconds_first_match:
  "pickTtlSeconds query = first_match (toLowerCase query)"
  by (simp add: pickTtlSeconds_def first_match_def ttl_rules_def Let_def DEFAULT_TTL_SECONDS_def)

text \<open>
  The claim as stated fails: a query that contains \<^verbatim>\<open>query LotteryById\<close> and selects \<^verbatim>\<open>_meta\<close>
  gets 3 seconds, not 15.
\<close>

theorem pickTtlSeconds_LotteryById_counterexample:
  "includesStr
     ''query LotteryById($id: ID!) { lottery(id: $id) { id } _meta { block { number } } }''
     ''query LotteryById'' \<and>
   pickTtlSeconds
     ''query LotteryById($id: ID!) { lottery(id: $id) { id } _meta { block { number } } }'' = 3 \<and>
   pickTtlSeconds
     ''query LotteryById($id: ID!) { lottery(id: $id) { id } _meta { block { number } } }'' \<noteq> 15"
  by (simp add: pickTtlSeconds_def toLowerCase_def lower_char_def)

subsection \<open>Canonical form\<close>

lemma set_ordered_entries: "set (ordered_entries kvs) = set kvs"
  by (auto simp: ordered_entries_def)

lemma set_Object_keys: "set (Object_keys kvs) = set (map fst kvs)"
  by (simp add: Object_keys_def set_ordered_entries)

lemma distinct_ordered_entries:
  "distinct (map fst kvs) \<Longrightarrow> distinct (map fst (ordered_entries kvs))"
proof -
  assume d: "distinct (map fst kvs)"
  then have "distinct kvs" and inj: "inj_on fst (set kvs)" by (simp_all add: distinct_map)
  then have "distinct (ordered_entries kvs)" by (auto simp: ordered_entries_def)
  moreover have "inj_on fst (set (ordered_entries kvs))" using inj by (simp add: set_ordered_entries)
  ultimately show ?thesis by (simp add: distinct_map)
qed

lemma sort_keys_eq:
  assumes "distinct (map fst xs)" "distinct (map fst ys)" "set (map fst xs) = set (map fst ys)"
  shows "sort (Object_keys xs) = sort (Object_keys ys)"
proof (rule sorted_distinct_set_unique)
  show "distinct (sort (Object_keys xs))"
    using assms(1) by (simp add: Object_keys_def distinct_ordered_entries)
  show "distinct (sort (Object_keys ys))"
    using assms(2) by (simp add: Object_keys_def distinct_ordered_entries)
  show "set (sort (Object_keys xs)) = set (sort (Object_keys ys))"
    using assms(3) by (simp add: set_Object_keys)
qed simp_all

lemma map_of_mapped_values:
  "map_of (map (\<lambda>(k, v). (k, f v)) kvs) k = map_option f (map_of kvs k)"
  by (induction kvs) auto

lemma helper_equiv: "key_order_equiv a b \<Longrightarrow> helper a = helper b"
proof (induction rule: key_order_equiv.induct)
  case (eq_arr xs ys)
  then show ?case by (induction rule: list_all2_induct) auto
next
  case (eq_obj xs ys)
  have keys: "sort (Object_keys xs) = sort (Object_keys ys)"
    using eq_obj(1-3) by (rule sort_keys_eq)
  have "map_of (map (\<lambda>(k, v). (k, helper v)) xs) k = map_of (map (\<lambda>(k, v). (k, helper v)) ys) k" for k
  proof (cases "map_of xs k")
    case None
    then have "k \<notin> set (map fst xs)" by (simp add: map_of_eq_None_iff)
    then have "map_of ys k = None" using eq_obj(3) by (simp add: map_of_eq_None_iff)
    with None show ?thesis by (simp add: map_of_mapped_values)
  next
    case (Some v)
    then have kv: "(k, v) \<in> set xs" by (rule map_of_SomeD)
    then have "k \<in> set (map fst ys)" using eq_obj(3) by force
    then obtain w where kw: "(k, w) \<in> set ys" by auto
    then have w: "map_of ys k = Some w" using eq_obj(2) by simp
    from eq_obj(4) kv kw have "helper v = helper w" by blast
    with Some w show ?thesis by (simp add: map_of_mapped_values)
  qed
  then have "map_of (map (\<lambda>(k, v). (k, helper v)) xs) = map_of (map (\<lambda>(k, v). (k, helper v)) ys)"
    by (rule ext)
  with keys show ?case by simp
qed simp_all

lemma clampNumberish_equiv:
  "key_order_equiv v w \<Longrightarrow> clampNumberish h v lo hi = clampNumberish h w lo hi"
  by (erule key_order_equiv.cases) (simp_all add: clampNumberish_def)

lemma isArray_equiv: "key_order_equiv v w \<Longrightarrow> isArray v = isArray w"
  by (erule key_order_equiv.cases) (simp_all add: isArray_def)

lemma slice0_equiv: "key_order_equiv v w \<Longrightarrow> key_order_equiv (slice0 n v) (slice0 n w)"
proof (erule key_order_equiv.cases)
  fix xs ys assume "v = JArr xs" "w = JArr ys" "list_all2 key_order_equiv xs ys"
  then show ?thesis
    by (simp add: slice0_def key_order_equiv.eq_arr list_all2_takeI)
qed (auto simp: slice0_def intro: key_order_equiv.intros)

lemma walk_equiv: "key_order_equiv a b \<Longrightarrow> key_order_equiv (walk h a) (walk h b)"
proof (induction rule: key_order_equiv.induct)
  case (eq_arr xs ys)
  then have "list_all2 key_order_equiv (map (walk h) xs) (map (walk h) ys)"
    by (simp add: list_all2_conv_all_nth)
  then show ?case by (simp add: key_order_equiv.eq_arr)
next
  case (eq_obj xs ys)
  let ?f = "(\<lambda>(k, v).
        (k, if k = ''first'' then JNum (Fin (of_int (clampNumberish h v 1 200)))
            else if k = ''skip'' then JNum (Fin (of_int (clampNumberish h v 0 100000)))
            else if is_ids_key k \<and> isArray v then slice0 200 (walk h v)
            else walk h v))"
  have fst_f: "map fst (map ?f zs) = map fst zs" for zs by (induction zs) auto
  have vals: "key_order_equiv v' w'"
    if "(k, v') \<in> set (map ?f xs)" "(k, w') \<in> set (map ?f ys)" for k v' w'
  proof -
    from that(1) obtain v where v: "(k, v) \<in> set xs" "(k, v') = ?f (k, v)" by auto
    from that(2) obtain w where w: "(k, w) \<in> set ys" "(k, w') = ?f (k, w)" by auto
    from eq_obj.IH v(1) w(1)
    have e: "key_order_equiv v w" and ew: "key_order_equiv (walk h v) (walk h w)" by blast+
    show ?thesis
      using v(2) w(2) e ew clampNumberish_equiv[OF e, of h] isArray_equiv[OF e]
        slice0_equiv[OF ew, of 200]
      by (auto intro: key_order_equiv.eq_num)
  qed
  have "key_order_equiv (JObj (map ?f xs)) (JObj (map ?f ys))"
  proof (rule key_order_equiv.eq_obj)
    show "distinct (map fst (map ?f xs))" using eq_obj.hyps(1) by (simp only: fst_f)
    show "distinct (map fst (map ?f ys))" using eq_obj.hyps(2) by (simp only: fst_f)
    show "set (map fst (map ?f xs)) = set (map fst (map ?f ys))"
      using eq_obj.hyps(3) by (simp only: fst_f)
    show "\<forall>k v w. (k, v) \<in> set (map ?f xs) \<and> (k, w) \<in> set (map ?f ys) \<longrightarrow> key_order_equiv v w"
      using vals by blast
  qed
  then show ?case by simp
qed (auto intro: key_order_equiv.intros)

lemma key_envelope_equiv:
  assumes "key_order_equiv a b"
  shows "key_order_equiv
     (JObj [(''v'', JNum (Fin 7)), (''query'', JStr q), (''variables'', clampPagination h a)])
     (JObj [(''v'', JNum (Fin 7)), (''query'', JStr q), (''variables'', clampPagination h b)])"
  using walk_equiv[OF assms, of h]
  by (intro key_order_equiv.eq_obj) (auto simp: clampPagination_def intro: key_order_equiv.intros)

text \<open>
  Claim C5. Two variables values that differ only in the insertion order of the keys of
  their objects, at any depth, have the same canonical string, and a request with either of
  them has the same cache key.
\<close>

theorem canonicalStringify_order_independent:
  "key_order_equiv v1 v2 \<Longrightarrow>
   canonicalStringify h v1 = canonicalStringify h v2 \<and>
   cache_key h query v1 = cache_key h query v2"
  using helper_equiv[of v1 v2] helper_equiv[OF key_envelope_equiv, of v1 v2 query h]
  by (simp add: canonicalStringify_def cache_key_def)

theorem canonicalStringify_order_independent_witness:
  "key_order_equiv
     (JObj [(''first'', JStr ''9999''), (''where'', JObj [(''creator'', JStr ''0xab''), (''id'', JStr ''42'')])])
     (JObj [(''where'', JObj [(''id'', JStr ''42''), (''creator'', JStr ''0xab'')]), (''first'', JStr ''9999'')]) \<and>
   canonicalStringify (example_host [])
     (JObj [(''first'', JStr ''9999''), (''where'', JObj [(''creator'', JStr ''0xab''), (''id'', JStr ''42'')])]) =
   canonicalStringify (example_host [])
     (JObj [(''where'', JObj [(''id'', JStr ''42''), (''creator'', JStr ''0xab'')]), (''first'', JStr ''9999'')]) \<and>
   cache_key (example_host []) ''query A { x }''
     (JObj [(''first'', JStr ''9999''), (''where'', JObj [(''creator'', JStr ''0xab''), (''id'', JStr ''42'')])]) =
   cache_key (example_host []) ''query A { x }''
     (JObj [(''where'', JObj [(''id'', JStr ''42''), (''creator'', JStr ''0xab'')]), (''first'', JStr ''9999'')])"
proof -
  have inner: "key_order_equiv (JObj [(''creator'', JStr ''0xab''), (''id'', JStr ''42'')])
                 (JObj [(''id'', JStr ''42''), (''creator'', JStr ''0xab'')])"
    by (rule key_order_equiv.eq_obj) (auto intro: key_order_equiv.intros)
  have e: "key_order_equiv
     (JObj [(''first'', JStr ''9999''), (''where'', JObj [(''creator'', JStr ''0xab''), (''id'', JStr ''42'')])])
     (JObj [(''where'', JObj [(''id'', JStr ''42''), (''creator'', JStr ''0xab'')]), (''first'', JStr ''9999'')])"
    using inner by (intro key_order_equiv.eq_obj) (auto intro: key_order_equiv.intros)
  show ?thesis
    using e canonicalStringify_order_independent[OF e, of "example_host []" "''query A { x }''"]
    by simp
qed

subsection \<open>The example inputs\<close>

lemma example_parse_body:
  "JSON_parse (example_host example_texts) example_body =
     Some (JObj [(''query'', JStr ''query LotteryById($id: ID!) { lottery(id: $id) { id } }''),
                 (''variables'', JObj [(''id'', JStr ''42''), (''first'', JStr ''9999'')])])"
  by (simp add: example_host_def example_texts_def)

lemma example_parse_data:
  "JSON_parse (example_host example_texts) example_data =
     Some (JObj [(''data'', JObj [(''lottery'', JObj [(''id'', JStr ''42'')])])])"
  by (simp add: example_host_def example_texts_def example_body_def example_data_def)

lemma example_parse_meta:
  "JSON_parse (example_host example_texts) example_meta =
     Some (JObj [(''data'', JObj [(''_meta'', JObj [(''block'', JObj [(''number'', JNum (Fin 99))])])])])"
  by (simp add: example_host_def example_texts_def example_body_def example_data_def
      example_meta_def)

lemma example_parse_errors:
  "JSON_parse (example_host example_texts) example_errors =
     Some (JObj [(''errors'', JArr [JObj [(''message'', JStr ''boom'')]])])"
  by (simp add: example_host_def example_texts_def example_body_def example_data_def
      example_meta_def example_errors_def)

lemma example_body_nonempty: "example_body \<noteq> []"
  by (simp add: example_body_def)

lemma show_nat_100: "show_nat 100 = ''100''"
  by code_simp

lemma example_Number_100: "Number_of (example_host tbl) ''100'' = Some (Fin 100)"
  by (simp add: example_host_def is_digit_def digits_val_def)

lemma example_toString_100: "Number_toString (example_host tbl) 100 = ''100''"
  by (simp add: example_host_def show_nat_100)

lemma example_trim: "String_trim (example_host tbl) = trim"
  by (simp add: example_host_def)

lemma example_never_exhausts: "exhausts (example_host tbl) site d = False"
  by (simp add: example_host_def)

subsection \<open>Headers and responses\<close>

lemma strip_idem:
  "rev (dropWhile P (rev (dropWhile P (rev (dropWhile P (rev (dropWhile P s))))))) =
   rev (dropWhile P (rev (dropWhile P s)))"
proof -
  define t where "t = dropWhile P s"
  define d where "d = dropWhile P (rev t)"
  have dd: "dropWhile P d = d" by (simp add: d_def)
  have "dropWhile P (rev d) = rev d"
  proof (cases "d = []")
    case True
    then show ?thesis by simp
  next
    case False
    obtain ws where ws: "rev t = ws @ d"
      unfolding d_def by (metis takeWhile_dropWhile_id)
    then have t: "t = rev d @ rev ws" by (metis rev_append rev_rev_ident)
    from False have "t \<noteq> []" using t by simp
    then have "\<not> P (hd t)" unfolding t_def by (rule hd_dropWhile)
    moreover have "hd t = hd (rev d)" using t False by simp
    ultimately show ?thesis using False by (cases "rev d") auto
  qed
  then show ?thesis by (simp add: t_def[symmetric] d_def[symmetric] dd)
qed

lemma normalize_value_idem [simp]:
  "normalize_value (normalize_value v) = normalize_value v"
  by (simp add: normalize_value_def strip_idem)

lemma normalize_literals [simp]:
  "normalize_value ''*'' = ''*''"
  "normalize_value ''application/json'' = ''application/json''"
  by (simp_all add: normalize_value_def is_http_space_def)

lemma map_of_keyed_values:
  "map_of (map (\<lambda>(k, x). (k, f k x)) hs) k' = map_option (f k') (map_of hs k')"
  by (induction hs) auto

lemma map_of_update_key:
  "map_of (map (\<lambda>(k, x). (k, if k = n then v else x)) hs) k' =
     (if k' = n \<and> n \<in> set (map fst hs) then Some v else map_of hs k')"
proof (cases "map_of hs k'")
  case None
  then have "k' \<notin> set (map fst hs)" by (simp add: map_of_eq_None_iff)
  with None show ?thesis
    using map_of_keyed_values[of "\<lambda>k x. if k = n then v else x" hs k'] by auto
next
  case (Some x)
  then have "k' \<in> set (map fst hs)" by (metis map_of_eq_None_iff option.distinct(1) set_map)
  with Some show ?thesis
    using map_of_keyed_values[of "\<lambda>k x. if k = n then v else x" hs k'] by auto
qed

lemma headers_get_set:
  "headers_get (headers_set hs n v) n' =
     (if toLowerCase n' = toLowerCase n then Some (normalize_value v) else headers_get hs n')"
proof (cases "toLowerCase n \<in> set (map fst hs)")
  case True
  then show ?thesis
    by (simp add: headers_get_def headers_set_def Let_def map_of_update_key)
next
  case False
  then have "map_of hs (toLowerCase n) = None" by (simp add: map_of_eq_None_iff)
  with False show ?thesis
    by (simp add: headers_get_def headers_set_def Let_def map_add_def split: option.splits)
qed

lemma headers_get_delete:
  "headers_get (headers_delete hs n) n' =
     (if toLowerCase n' = toLowerCase n then None else headers_get hs n')"
  by (induction hs) (auto simp: headers_get_def headers_delete_def)

lemma lower_header_names:
  "toLowerCase ''Access-Control-Allow-Origin'' = ''access-control-allow-origin''"
  "toLowerCase ''Access-Control-Allow-Methods'' = ''access-control-allow-methods''"
  "toLowerCase ''Access-Control-Allow-Headers'' = ''access-control-allow-headers''"
  "toLowerCase ''Access-Control-Max-Age'' = ''access-control-max-age''"
  "toLowerCase ''Vary'' = ''vary''"
  "toLowerCase ''content-type'' = ''content-type''"
  "toLowerCase ''Cache-Control'' = ''cache-control''"
  "toLowerCase ''CDN-Cache-Control'' = ''cdn-cache-control''"
  "toLowerCase ''X-Cache'' = ''x-cache''"
  by (simp_all add: toLowerCase_def lower_char_def char_of_eq_iff)

lemma Response_fault_plain:
  "200 \<le> st \<Longrightarrow> st \<le> 599 \<Longrightarrow> \<not> null_body_status st \<Longrightarrow> Response_fault h body st = None"
  by (simp add: Response_fault_def)

lemma Response_fault_null:
  "200 \<le> st \<Longrightarrow> st \<le> 599 \<Longrightarrow> Response_fault h None st = None"
  by (simp add: Response_fault_def)

lemma new_Response_Inr_iff:
  "new_Response h body st hs = Inr r \<longleftrightarrow>
     Response_fault h body st = None \<and>
     r = \<lparr>r_status = st, r_headers = hs, r_body = (case body of None \<Rightarrow> [] | Some b \<Rightarrow> b)\<rparr>"
  by (auto simp: new_Response_def split: option.splits)

lemma new_Response_well_formed:
  assumes "new_Response h body st hs = Inr r"
  shows "well_formed r"
proof -
  from assms have f: "Response_fault h body st = None"
    and r: "r = \<lparr>r_status = st, r_headers = hs, r_body = (case body of None \<Rightarrow> [] | Some b \<Rightarrow> b)\<rparr>"
    by (simp_all add: new_Response_Inr_iff)
  from f have "200 \<le> st \<and> st \<le> 599"
    by (simp add: Response_fault_def split: if_splits)
  moreover from f have "null_body_status st \<longrightarrow> (case body of None \<Rightarrow> [] | Some b \<Rightarrow> b) = []"
    by (auto simp: Response_fault_def split: if_splits option.splits)
  ultimately show ?thesis using r by (simp add: well_formed_def)
qed

lemma rebuilt_well_formed:
  "rebuilt h r hs = Inr r' \<Longrightarrow> well_formed r'"
  unfolding rebuilt_def by (rule new_Response_well_formed)

lemma rebuilt_of_well_formed:
  "well_formed r \<Longrightarrow> rebuilt h r hs = Inr (r\<lparr>r_headers := hs\<rparr>)"
  by (cases r) (auto simp: rebuilt_def new_Response_def Response_fault_def well_formed_def)

lemma rebuilt_Inr_iff:
  "rebuilt h r hs = Inr r' \<longleftrightarrow>
     200 \<le> r_status r \<and> r_status r \<le> 599 \<and>
     r' = \<lparr>r_status = r_status r, r_headers = hs,
           r_body = (if null_body_status (r_status r) then [] else r_body r)\<rparr>"
  by (auto simp: rebuilt_def new_Response_def Response_fault_def split: option.splits if_splits)

lemma withCors_Inr_well_formed: "withCors h r = Inr r' \<Longrightarrow> well_formed r'"
  by (auto simp: withCors_def Let_def intro: rebuilt_well_formed)

lemma and_then_withCors_well_formed: "and_then x (withCors h) = Inr r \<Longrightarrow> well_formed r"
  by (cases x) (auto simp: and_then_def intro: withCors_Inr_well_formed)

lemma withCors_content_type:
  "withCors h r = Inr r' \<Longrightarrow>
   headers_get (r_headers r') ''content-type'' = headers_get (r_headers r) ''content-type''"
  by (auto simp: withCors_def Let_def rebuilt_Inr_iff headers_get_set headers_get_delete
      lower_header_names split: option.splits if_splits)

lemma withCors_built:
  assumes "well_formed r"
  shows "\<exists>r'. withCors h r = Inr r' \<and> well_formed r' \<and> r_status r' = r_status r \<and>
           r_body r' = r_body r \<and>
           headers_get (r_headers r') ''content-type'' = headers_get (r_headers r) ''content-type''"
proof -
  obtain hs where w: "withCors h r = Inr (r\<lparr>r_headers := hs\<rparr>)"
    using rebuilt_of_well_formed[OF assms, of h] by (simp add: withCors_def Let_def)
  from withCors_Inr_well_formed[OF w] withCors_content_type[OF w] w show ?thesis by simp
qed

lemma plain_response_built:
  assumes "200 \<le> st" and "st \<le> 599" and "\<not> null_body_status st"
  shows "\<exists>r. plain_response h t st = Inr r \<and> well_formed r \<and> r_status r = st \<and> r_body r = t"
proof -
  let ?r = "\<lparr>r_status = st, r_headers = [], r_body = t\<rparr>"
  have n: "new_Response h (Some t) st [] = Inr ?r"
    using Response_fault_plain[OF assms, of h "Some t"] by (simp add: new_Response_def)
  from new_Response_well_formed[OF n] withCors_built[of ?r h] n show ?thesis
    by (auto simp: plain_response_def and_then_def)
qed

lemma internal_error_built:
  "\<exists>r. internal_error h e = Inr r \<and> well_formed r \<and> r_status r = 500 \<and>
       r_body r = internal_error_body h e \<and>
       headers_get (r_headers r) ''content-type'' = Some ''application/json''"
proof -
  let ?r = "\<lparr>r_status = 500, r_headers = new_Headers [(''content-type'', ''application/json'')],
             r_body = internal_error_body h e\<rparr>"
  have f: "Response_fault h (Some (internal_error_body h e)) 500 = None"
    by (rule Response_fault_plain) (simp_all add: null_body_status_def)
  then have n: "new_Response h (Some (internal_error_body h e)) 500
                  (new_Headers [(''content-type'', ''application/json'')]) = Inr ?r"
    by (simp add: new_Response_def)
  have ct: "headers_get (r_headers ?r) ''content-type'' = Some ''application/json''"
    by (simp add: new_Headers_def headers_get_set)
  from new_Response_well_formed[OF n] withCors_built[of ?r h] n ct show ?thesis
    by (auto simp: internal_error_def internal_error_body_def and_then_def)
qed

lemma makeTextResponse_cases:
  "makeTextResponse h v ttl x =
     (case Response_fault h (Some (iv_text v)) (iv_status v) of
        Some e \<Rightarrow> Inl e
      | None \<Rightarrow>
          Inr \<lparr>r_status = iv_status v,
               r_headers = new_Headers
                 [(''content-type'', iv_contentType v),
                  (''Cache-Control'', cacheControlEdgeOnly ttl),
                  (''CDN-Cache-Control'', cacheControlEdgeOnly ttl),
                  (''X-Cache'', XCache_name x)],
               r_body = iv_text v\<rparr>)"
  by (simp add: makeTextResponse_def new_Response_def Let_def split: option.splits)

lemma makeTextResponse_Inr:
  assumes "makeTextResponse h v ttl x = Inr r"
  shows "Response_fault h (Some (iv_text v)) (iv_status v) = None \<and> well_formed r \<and>
         r_status r = iv_status v \<and> r_body r = iv_text v \<and>
         headers_get (r_headers r) ''content-type'' = Some (normalize_value (iv_contentType v))"
proof -
  from assms have f: "Response_fault h (Some (iv_text v)) (iv_status v) = None"
    by (simp add: makeTextResponse_cases split: option.splits)
  with assms have r: "r = \<lparr>r_status = iv_status v,
               r_headers = new_Headers
                 [(''content-type'', iv_contentType v),
                  (''Cache-Control'', cacheControlEdgeOnly ttl),
                  (''CDN-Cache-Control'', cacheControlEdgeOnly ttl),
                  (''X-Cache'', XCache_name x)],
               r_body = iv_text v\<rparr>"
    by (simp add: makeTextResponse_cases)
  have "well_formed r"
    using assms unfolding makeTextResponse_def Let_def by (rule new_Response_well_formed)
  moreover have "headers_get (r_headers r) ''content-type'' = Some (normalize_value (iv_contentType v))"
    by (simp add: r new_Headers_def headers_get_set lower_header_names)
  ultimately show ?thesis using f r by simp
qed

lemma answer_response_fault:
  "Response_fault h (Some (iv_text v)) (iv_status v) = Some e \<Longrightarrow>
   answer_response h v p creator = Inl e"
  by (simp add: answer_response_def makeTextResponse_cases and_then_def)

lemma answer_response_built:
  assumes "Response_fault h (Some (iv_text v)) (iv_status v) = None"
  shows "\<exists>r. answer_response h v p creator = Inr r \<and> well_formed r \<and>
           r_status r = iv_status v \<and> r_body r = iv_text v \<and>
           headers_get (r_headers r) ''content-type'' = Some (normalize_value (iv_contentType v))"
proof -
  let ?x = "if creator then (if p_forceFresh p then BYPASS else MISS)
            else (if p_forceFresh p then COALESCED_BYPASS else COALESCED)"
  obtain r0 where r0: "makeTextResponse h v (p_ttl p) ?x = Inr r0"
    using assms by (simp add: makeTextResponse_cases)
  from makeTextResponse_Inr[OF r0] withCors_built[of r0 h] r0 show ?thesis
    by (auto simp: answer_response_def and_then_def)
qed

lemma answer_response_Inr_well_formed:
  "answer_response h v p creator = Inr r \<Longrightarrow> well_formed r"
  unfolding answer_response_def by (rule and_then_withCors_well_formed)

lemma lookup_well_formed: "lookup h t c p = Some hit \<Longrightarrow> well_formed hit"
  by (auto simp: lookup_def hit_response_def Let_def split: if_splits option.splits sum.splits
      intro: and_then_withCors_well_formed)

lemma handleOptions_built: "\<exists>r. handleOptions h req = Inr r \<and> well_formed r"
proof -
  have "Response_fault h None 204 = None" by (rule Response_fault_null) simp_all
  then obtain r where r: "handleOptions h req = Inr r"
    by (simp add: handleOptions_def Let_def new_Response_def)
  then have "well_formed r"
    unfolding handleOptions_def Let_def by (rule new_Response_well_formed)
  with r show ?thesis by blast
qed

lemma meta_endpoint_built: "\<exists>r. meta_endpoint h env w = Inr r \<and> well_formed r"
proof (cases "SUBGRAPH_URL env = []")
  case True
  with plain_response_built[of 500 h "''Missing SUBGRAPH_URL''"] show ?thesis
    by (auto simp: meta_endpoint_def null_body_status_def)
next
  case False
  let ?cc = "cacheControlEdgeOnly 3"
  let ?inner = "case probe w of
                 Inl e \<Rightarrow> Inl e
               | Inr up \<Rightarrow>
                   and_then
                     (new_Response h (Some (up_text up)) (up_status up)
                        (new_Headers
                           [(''content-type'',
                               (case up_content_type up of
                                  Some t \<Rightarrow> normalize_value t
                                | None \<Rightarrow> ''application/json'')),
                            (''Cache-Control'', ?cc),
                            (''CDN-Cache-Control'', ?cc),
                            (''X-Cache'', ''MISS'')]))
                     (withCors h)"
  show ?thesis
  proof (cases ?inner)
    case (Inr r)
    then have "well_formed r"
      by (auto split: sum.splits intro: and_then_withCors_well_formed)
    with Inr False show ?thesis by (simp add: meta_endpoint_def Let_def)
  next
    case (Inl e)
    let ?st = "if isAbortTimeout e then 504 else 502 :: nat"
    let ?body = "JSON_stringify h (JObj
                     [(''error'', JStr ''UPSTREAM_FETCH_FAILED''),
                      (''message'', JStr (String_of_exn e))])"
    let ?r = "\<lparr>r_status = ?st, r_headers = new_Headers [(''content-type'', ''application/json'')],
               r_body = ?body\<rparr>"
    have "Response_fault h (Some ?body) ?st = None"
      by (rule Response_fault_plain) (simp_all add: null_body_status_def)
    then have n: "new_Response h (Some ?body) ?st
                    (new_Headers [(''content-type'', ''application/json'')]) = Inr ?r"
      by (simp add: new_Response_def)
    from new_Response_well_formed[OF n] withCors_built[of ?r h] n Inl False show ?thesis
      by (auto simp: meta_endpoint_def Let_def and_then_def)
  qed
qed

subsection \<open>Key derivation\<close>

lemma reply_not_Goes_on [simp]: "reply x \<noteq> Goes_on p"
  by (cases x) (simp_all add: reply_def)

lemma read_request_Goes_on:
  assumes "read_request h req = Goes_on p"
  shows "\<exists>raw b. req_text req = Inr raw \<and>
           (if raw \<noteq> [] then JSON_parse h raw else Some (JObj [])) = Some b \<and>
           p = \<lparr>p_query = body_query b,
                p_variables = clampPagination h (body_variables b),
                p_ttl = pickTtlSeconds (body_query b),
                p_hashKey = cache_key h (body_query b) (body_variables b),
                p_cacheUrl = cacheUrlFor (req_url req) (cache_key h (body_query b) (body_variables b)),
                p_forceFresh =
                  (String_trim h (or_default (headers_get (req_headers req) FORCE_FRESH_HEADER) []) = ''1'')\<rparr>"
proof (cases "req_text req")
  case (Inl e)
  with assms show ?thesis by (simp add: read_request_def Let_def)
next
  case (Inr raw)
  show ?thesis
  proof (cases "if raw \<noteq> [] then JSON_parse h raw else Some (JObj [])")
    case None
    with assms Inr show ?thesis by (simp add: read_request_def Let_def)
  next
    case (Some b)
    with assms Inr show ?thesis
      by (simp add: read_request_def Let_def split: if_splits)
  qed
qed

lemma prepare_Goes_on:
  "prepare h env w req = Goes_on p \<Longrightarrow> read_request h req = Goes_on p"
  by (simp add: prepare_def split: if_splits)

lemma cacheUrlFor_eq: "cacheUrlFor u k = origin u @ ''/__cache/'' @ k"
  by (simp add: cacheUrlFor_def url_toString_def)

lemma example_prepare:
  "\<exists>p. prepare (example_host example_texts) example_env w (example_request qs f) = Goes_on p \<and>
       p_forceFresh p = (trim (normalize_value f) = ''1'')"
  by (simp add: prepare_def read_request_def example_request_def example_env_def
      example_parse_body example_body_nonempty body_query_def body_variables_def get_prop_def
      or_default_def headers_get_def FORCE_FRESH_HEADER_def toLowerCase_def lower_char_def Let_def
      example_never_exhausts example_trim)

text \<open>
  Claim C10. Two requests with the same body that reach the key derivation get the same
  hash key, and when their URLs agree up to the query string the same synthetic cache URL.
  The key is the digest of the canonical form of the version 7, the query text and the
  clamped variables, and the cache URL is the request URL without its query string, with
  the path \<^verbatim>\<open>/__cache/\<close> followed by the key.
\<close>

theorem cache_address_ignores_query_string:
  assumes "prepare h env1 w1 r1 = Goes_on p1" and "prepare h env2 w2 r2 = Goes_on p2"
    and "req_text r1 = req_text r2" and "origin (req_url r1) = origin (req_url r2)"
  shows "p_hashKey p1 = p_hashKey p2 \<and> p_cacheUrl p1 = p_cacheUrl p2 \<and>
         p_hashKey p1 = sha256Hex h (canonicalStringify h
            (JObj [(''v'', JNum (Fin 7)), (''query'', JStr (p_query p1)),
                   (''variables'', p_variables p1)])) \<and>
         p_cacheUrl p1 = origin (req_url r1) @ ''/__cache/'' @ p_hashKey p1"
proof -
  from read_request_Goes_on[OF prepare_Goes_on[OF assms(1)]] obtain raw1 b1 where
    1: "req_text r1 = Inr raw1"
       "(if raw1 \<noteq> [] then JSON_parse h raw1 else Some (JObj [])) = Some b1"
       "p_query p1 = body_query b1" "p_variables p1 = clampPagination h (body_variables b1)"
       "p_hashKey p1 = cache_key h (body_query b1) (body_variables b1)"
       "p_cacheUrl p1 = cacheUrlFor (req_url r1) (p_hashKey p1)"
    by auto
  from read_request_Goes_on[OF prepare_Goes_on[OF assms(2)]] obtain raw2 b2 where
    2: "req_text r2 = Inr raw2"
       "(if raw2 \<noteq> [] then JSON_parse h raw2 else Some (JObj [])) = Some b2"
       "p_hashKey p2 = cache_key h (body_query b2) (body_variables b2)"
       "p_cacheUrl p2 = cacheUrlFor (req_url r2) (p_hashKey p2)"
    by auto
  from 1(1) 2(1) assms(3) have "raw1 = raw2" by simp
  with 1(2) 2(2) have "b1 = b2" by (simp split: if_splits)
  with 1 2 assms(4) show ?thesis
    by (simp add: cacheUrlFor_eq cache_key_def)
qed

theorem cache_address_ignores_query_string_witness:
  "\<exists>p1 p2.
     prepare (example_host example_texts) example_env (example_world (Inl (Error ''down'')))
       (example_request ''?cb=1'' ''0'') = Goes_on p1 \<and>
     prepare (example_host example_texts) example_env (example_world (Inl (Error ''down'')))
       (example_request ''?cb=2&x=y'' ''0'') = Goes_on p2 \<and>
     req_text (example_request ''?cb=1'' ''0'') = req_text (example_request ''?cb=2&x=y'' ''0'') \<and>
     origin (req_url (example_request ''?cb=1'' ''0'')) =
       origin (req_url (example_request ''?cb=2&x=y'' ''0'')) \<and>
     search (req_url (example_request ''?cb=1'' ''0'')) \<noteq>
       search (req_url (example_request ''?cb=2&x=y'' ''0'')) \<and>
     p_hashKey p1 = p_hashKey p2 \<and> p_cacheUrl p1 = p_cacheUrl p2 \<and>
     p_cacheUrl p1 = ''https://cache.example/__cache/'' @ p_hashKey p1"
proof -
  obtain p1 where p1:
    "prepare (example_host example_texts) example_env (example_world (Inl (Error ''down'')))
       (example_request ''?cb=1'' ''0'') = Goes_on p1"
    using example_prepare by blast
  obtain p2 where p2:
    "prepare (example_host example_texts) example_env (example_world (Inl (Error ''down'')))
       (example_request ''?cb=2&x=y'' ''0'') = Goes_on p2"
    using example_prepare by blast
  have t: "req_text (example_request ''?cb=1'' ''0'') = req_text (example_request ''?cb=2&x=y'' ''0'')"
    and o: "origin (req_url (example_request ''?cb=1'' ''0'')) =
            origin (req_url (example_request ''?cb=2&x=y'' ''0''))"
    and s: "search (req_url (example_request ''?cb=1'' ''0'')) \<noteq>
            search (req_url (example_request ''?cb=2&x=y'' ''0''))"
    and o1: "origin (req_url (example_request ''?cb=1'' ''0'')) = ''https://cache.example''"
    by (simp_all add: example_request_def)
  from cache_address_ignores_query_string[OF p1 p2 t o]
  have k: "p_hashKey p1 = p_hashKey p2" and u: "p_cacheUrl p1 = p_cacheUrl p2"
    and a: "p_cacheUrl p1 = origin (req_url (example_request ''?cb=1'' ''0'')) @ ''/__cache/'' @ p_hashKey p1"
    by blast+
  from a have "p_cacheUrl p1 = ''https://cache.example/__cache/'' @ p_hashKey p1"
    by (simp only: o1 append.simps)
  with p1 p2 t o s k u show ?thesis by blast
qed

subsection \<open>Meta-guard\<close>

lemma num_ge_iff_not_less: "num_ge a b \<longleftrightarrow> \<not> num_less a b"
  by (cases a; cases b) auto

lemma guard_verdict:
  assumes "fetchSubgraphMetaBlock h w = Some n"
  shows "shouldWriteThroughCacheMetaGuard h w c hashKey =
           (case read_oldMeta h w c (metaReq_url hashKey) of
              None \<Rightarrow> (True, if meta_put_throws w then c else c(metaReq_url hashKey \<mapsto> meta_entry h n))
            | Some old \<Rightarrow>
                if num_less n (Fin old) then (False, c)
                else (True, if meta_put_throws w then c else c(metaReq_url hashKey \<mapsto> meta_entry h n)))"
  using assms by (simp add: shouldWriteThroughCacheMetaGuard_def Let_def split: option.splits)


lemma attempt_forced_refused:
  "shouldWriteThroughCacheMetaGuard h w c hashKey = (False, c) \<Longrightarrow>
   snd (attempt h w c hashKey ttl True) = (None, c)"
  by (simp add: attempt_def Let_def split: sum.splits)

lemma meta_entry_built:
  "new_Response h (Some (String_of_num h n)) 200
     (new_Headers
        [(''content-type'', ''text/plain; charset=utf-8''),
         (''Cache-Control'', cacheControlMeta META_CACHE_TTL_SECONDS),
         (''CDN-Cache-Control'', cacheControlMeta META_CACHE_TTL_SECONDS)]) =
   Inr (meta_entry h n)"
  by (simp add: new_Response_def Response_fault_def null_body_status_def meta_entry_def Let_def)

lemma meta_entry_body: "r_body (meta_entry h n) = String_of_num h n"
  by (simp add: meta_entry_def new_Response_def Let_def)

text \<open>
  Claim C1. Let \<open>P\<close> be the counter that the guard reads back for the key, and let the probe
  yield the counter \<open>n\<close>. The guard returns true exactly when \<open>n \<ge> P\<close>. When \<open>n < P\<close> it returns
  false and leaves the cache as it was, the recorded counter included, and a forced-fresh
  attempt hands no write of the response to the cache.
\<close>

theorem meta_guard_monotone:
  assumes "read_oldMeta h w c (metaReq_url hashKey) = Some P"
    and "fetchSubgraphMetaBlock h w = Some n"
  shows "(fst (shouldWriteThroughCacheMetaGuard h w c hashKey) \<longleftrightarrow> num_ge n (Fin P)) \<and>
         (num_less n (Fin P) \<longrightarrow>
            shouldWriteThroughCacheMetaGuard h w c hashKey = (False, c) \<and>
            snd (attempt h w c hashKey ttl True) = (None, c))"
proof -
  have v: "shouldWriteThroughCacheMetaGuard h w c hashKey =
      (if num_less n (Fin P) then (False, c)
       else (True, if meta_put_throws w then c else c(metaReq_url hashKey \<mapsto> meta_entry h n)))"
    using guard_verdict[OF assms(2), of c hashKey] assms(1) by simp
  then have "fst (shouldWriteThroughCacheMetaGuard h w c hashKey) \<longleftrightarrow> num_ge n (Fin P)"
    by (simp add: num_ge_iff_not_less)
  moreover have "snd (attempt h w c hashKey ttl True) = (None, c)" if "num_less n (Fin P)"
    using v that by (intro attempt_forced_refused) simp
  ultimately show ?thesis using v by simp
qed

lemma example_probe_99:
  "fetchSubgraphMetaBlock (example_host example_texts)
     (example_world (Inr \<lparr>up_status = 200, up_content_type = None, up_text = example_meta\<rparr>)) =
   Some (Fin 99)"
  by (simp add: fetchSubgraphMetaBlock_def example_world_def up_ok_def
      parseMetaBlockFromJsonText_def example_parse_meta meta_number_def get_prop_def)

lemma example_recorded_100:
  "read_oldMeta (example_host example_texts) (example_world pr)
     ((\<lambda>u. None)(metaReq_url k \<mapsto> meta_entry (example_host example_texts) (Fin 100)))
     (metaReq_url k) = Some 100"
  by (simp add: read_oldMeta_def example_world_def meta_entry_body String_of_num_def
      example_toString_100 example_Number_100)

theorem meta_guard_monotone_witness:
  "read_oldMeta (example_host example_texts)
     (example_world (Inr \<lparr>up_status = 200, up_content_type = None, up_text = example_meta\<rparr>))
     ((\<lambda>u. None)(metaReq_url ''k'' \<mapsto> meta_entry (example_host example_texts) (Fin 100)))
     (metaReq_url ''k'') = Some 100 \<and>
   fetchSubgraphMetaBlock (example_host example_texts)
     (example_world (Inr \<lparr>up_status = 200, up_content_type = None, up_text = example_meta\<rparr>)) =
     Some (Fin 99) \<and>
   num_less (Fin 99) (Fin 100) \<and> \<not> num_ge (Fin 99) (Fin 100) \<and>
   shouldWriteThroughCacheMetaGuard (example_host example_texts)
     (example_world (Inr \<lparr>up_status = 200, up_content_type = None, up_text = example_meta\<rparr>))
     ((\<lambda>u. None)(metaReq_url ''k'' \<mapsto> meta_entry (example_host example_texts) (Fin 100)))
     ''k'' =
     (False, (\<lambda>u. None)(metaReq_url ''k'' \<mapsto> meta_entry (example_host example_texts) (Fin 100))) \<and>
   snd (attempt (example_host example_texts)
     (example_world (Inr \<lparr>up_status = 200, up_content_type = None, up_text = example_meta\<rparr>))
     ((\<lambda>u. None)(metaReq_url ''k'' \<mapsto> meta_entry (example_host example_texts) (Fin 100)))
     ''k'' 15 True) =
     (None, (\<lambda>u. None)(metaReq_url ''k'' \<mapsto> meta_entry (example_host example_texts) (Fin 100)))"
  using meta_guard_monotone[OF example_recorded_100 example_probe_99, of "''k''" 15]
    example_recorded_100[of "Inr \<lparr>up_status = 200, up_content_type = None, up_text = example_meta\<rparr>" "''k''"]
    example_probe_99
  by simp

subsection \<open>The upstream attempt and the handler\<close>

lemma fetch_effects:
  "scheduled (fetch h env w c inflight req) = scheduled (fetch_try h env w c inflight req)"
  "cache_after (fetch h env w c inflight req) = cache_after (fetch_try h env w c inflight req)"
  "called_upstream (fetch h env w c inflight req) =
     called_upstream (fetch_try h env w c inflight req)"
  "resp (fetch h env w c inflight req) = caught h (resp (fetch_try h env w c inflight req))"
  by (simp_all add: fetch_def Let_def)

lemma fetch_try_Goes_on:
  "prepare h env w req = Goes_on p \<Longrightarrow> fetch_try h env w c inflight req = proxy h w c inflight p"
  by (simp add: fetch_try_def)



lemma upstream_value_fields:
  "iv_status (upstream_value up) = up_status up" "iv_text (upstream_value up) = up_text up"
  "iv_ok (upstream_value up) = up_ok up"
  by (simp_all add: upstream_value_def)

lemma example_okToCache:
  "okToCache (example_host example_texts)
     (upstream_value \<lparr>up_status = 200, up_content_type = Some ''application/json'',
                      up_text = example_data\<rparr>)"
  by (simp add: okToCache_def upstream_value_def up_ok_def example_parse_data has_errors_def)



lemma example_prepare_unforced:
  "\<exists>p. prepare (example_host example_texts) example_env w (example_request qs ''0'') = Goes_on p \<and>
       \<not> p_forceFresh p"
  using example_prepare[of w qs "''0''"]
  by (auto simp: trim_def is_space_def normalize_value_def is_http_space_def)





lemma attempt_toCache:
  assumes "attempt h w c hashKey ttl ff = (v, Some r, c')"
  shows "\<exists>up. upstream w = Inr up \<and> v = upstream_value up \<and> okToCache h v \<and>
           makeTextResponse h v ttl (if ff then BYPASS_WRITE else MISS) = Inr r"
proof (cases "upstream w")
  case (Inl e)
  with assms show ?thesis by (simp add: attempt_def)
next
  case (Inr up)
  with assms show ?thesis
    by (auto simp: attempt_def Let_def split: if_splits prod.splits sum.splits)
qed

lemma okToCache_iff:
  "okToCache h v \<longleftrightarrow>
     iv_ok v \<and>
     (includesStr (iv_contentType v) ''application/json'' \<longrightarrow>
        (\<exists>parsed. JSON_parse h (iv_text v) = Some parsed \<and> \<not> has_errors parsed))"
  by (auto simp: okToCache_def split: option.splits)

lemma guard_cache_change:
  assumes "shouldWriteThroughCacheMetaGuard h w c hashKey = (b, c')" and "c' u \<noteq> c u"
  shows "u = metaReq_url hashKey \<and> (\<exists>n. c' u = Some (meta_entry h n))"
proof (cases "fetchSubgraphMetaBlock h w")
  case None
  with assms show ?thesis by (simp add: shouldWriteThroughCacheMetaGuard_def)
next
  case (Some n)
  from assms(1) have "c' = c \<or> c' = c(metaReq_url hashKey \<mapsto> meta_entry h n)"
    unfolding guard_verdict[OF Some] by (auto split: option.splits if_splits)
  with assms(2) show ?thesis by (auto split: if_splits)
qed

lemma attempt_cache_change:
  assumes "attempt h w c hashKey ttl ff = (v, t, c')" and "c' u \<noteq> c u"
  shows "u = metaReq_url hashKey \<and> (\<exists>n. c' u = Some (meta_entry h n))"
proof (cases "upstream w")
  case (Inl e)
  with assms show ?thesis by (simp add: attempt_def)
next
  case (Inr up)
  show ?thesis
  proof (cases "okToCache h (upstream_value up) \<and> ff")
    case True
    obtain b c2 where g: "shouldWriteThroughCacheMetaGuard h w c hashKey = (b, c2)"
      by (cases "shouldWriteThroughCacheMetaGuard h w c hashKey")
    with assms(1) Inr True have "c' = c2"
      by (auto simp: attempt_def Let_def split: if_splits sum.splits)
    with guard_cache_change[OF g, of u] assms(2) show ?thesis by blast
  next
    case False
    with assms Inr show ?thesis
      by (auto simp: attempt_def Let_def split: if_splits sum.splits)
  qed
qed

lemma fetch_cases:
  "(\<exists>p v t c'. prepare h env w req = Goes_on p \<and>
       attempt h w c (p_hashKey p) (p_ttl p) (p_forceFresh p) = (v, t, c') \<and>
       scheduled (fetch h env w c inflight req) = map_option (\<lambda>r. (p_cacheUrl p, r)) t \<and>
       cache_after (fetch h env w c inflight req) = c') \<or>
   (scheduled (fetch h env w c inflight req) = None \<and> cache_after (fetch h env w c inflight req) = c)"
proof (cases "prepare h env w req")
  case (Goes_on p)
  show ?thesis
  proof (cases "lookup h (match_throws w) c p = None \<and> inflight (p_hashKey p) = None")
    case True
    obtain v t c' where a: "attempt h w c (p_hashKey p) (p_ttl p) (p_forceFresh p) = (v, t, c')"
      by (cases "attempt h w c (p_hashKey p) (p_ttl p) (p_forceFresh p)")
    with Goes_on True show ?thesis by (simp add: fetch_effects fetch_try_def proxy_def)
  next
    case False
    with Goes_on show ?thesis
      by (auto simp: fetch_effects fetch_try_def proxy_def split: option.splits)
  qed
qed (simp_all add: fetch_effects fetch_try_def)

text \<open>
  Claim C4, as amended. A response is handed to the cache only if the upstream answered
  with a 2xx status and, when the content type contains \<^verbatim>\<open>application/json\<close>, only if the body
  parses to a value that is not an object with a top-level \<^verbatim>\<open>errors\<close> key; what is handed
  over has the upstream's status and body. So a failed outcome is never stored, and neither
  is a successful response whose content type contains \<^verbatim>\<open>application/json\<close> and whose body
  has a top-level \<^verbatim>\<open>errors\<close> key. The only other change a run makes to the cache is the counter
  that the meta-guard records under the meta URL of the key.
\<close>

theorem stored_only_if_cacheable:
  "(scheduled (fetch h env w c inflight req) = Some (u, r) \<longrightarrow>
      (\<exists>up. upstream w = Inr up \<and> up_ok up \<and>
         (includesStr (iv_contentType (upstream_value up)) ''application/json'' \<longrightarrow>
            (\<exists>parsed. JSON_parse h (up_text up) = Some parsed \<and> \<not> has_errors parsed)) \<and>
         r_status r = up_status up \<and> r_body r = up_text up)) \<and>
   (cache_after (fetch h env w c inflight req) u' \<noteq> c u' \<longrightarrow>
      (\<exists>p n. prepare h env w req = Goes_on p \<and> u' = metaReq_url (p_hashKey p) \<and>
         cache_after (fetch h env w c inflight req) u' = Some (meta_entry h n)))"
proof (intro conjI impI)
  assume s: "scheduled (fetch h env w c inflight req) = Some (u, r)"
  with fetch_cases[of h env w req c inflight] obtain p :: parsed_request and v t c' where
    "attempt h w c (p_hashKey p) (p_ttl p) (p_forceFresh p) = (v, t, c')"
    "Some (u, r) = map_option (\<lambda>r. (p_cacheUrl p, r)) t"
    by auto
  then have a: "attempt h w c (p_hashKey p) (p_ttl p) (p_forceFresh p) = (v, Some r, c')"
    by (cases t) auto
  from attempt_toCache[OF a] obtain up where
    up: "upstream w = Inr up" "v = upstream_value up" "okToCache h v"
        "makeTextResponse h v (p_ttl p) (if p_forceFresh p then BYPASS_WRITE else MISS) = Inr r"
    by auto
  from up(3) have "iv_ok v"
    and "includesStr (iv_contentType v) ''application/json'' \<longrightarrow>
        (\<exists>parsed. JSON_parse h (iv_text v) = Some parsed \<and> \<not> has_errors parsed)"
    by (simp_all add: okToCache_iff)
  moreover have "r_status r = iv_status v" "r_body r = iv_text v"
    using makeTextResponse_Inr[OF up(4)] by simp_all
  ultimately show "\<exists>up. upstream w = Inr up \<and> up_ok up \<and>
         (includesStr (iv_contentType (upstream_value up)) ''application/json'' \<longrightarrow>
            (\<exists>parsed. JSON_parse h (up_text up) = Some parsed \<and> \<not> has_errors parsed)) \<and>
         r_status r = up_status up \<and> r_body r = up_text up"
    using up(1,2) by (simp add: upstream_value_fields)
next
  assume d: "cache_after (fetch h env w c inflight req) u' \<noteq> c u'"
  with fetch_cases[of h env w req c inflight] obtain p :: parsed_request and v t c' where
    p: "prepare h env w req = Goes_on p"
    and a: "attempt h w c (p_hashKey p) (p_ttl p) (p_forceFresh p) = (v, t, c')"
    and c': "cache_after (fetch h env w c inflight req) = c'"
    by auto
  from attempt_cache_change[OF a, of u'] d c' p
  show "\<exists>p n. prepare h env w req = Goes_on p \<and> u' = metaReq_url (p_hashKey p) \<and>
         cache_after (fetch h env w c inflight req) u' = Some (meta_entry h n)"
    by auto
qed

lemma unforced_cacheable_run:
  assumes "prepare h env w req = Goes_on p" and "\<not> p_forceFresh p"
    and "lookup h (match_throws w) c p = None" and "inflight (p_hashKey p) = None"
    and "upstream w = Inr up" and "okToCache h (upstream_value up)"
    and "makeTextResponse h (upstream_value up) (p_ttl p) MISS = Inr r"
  shows "scheduled (fetch h env w c inflight req) = Some (p_cacheUrl p, r)"
  using fetch_try_Goes_on[OF assms(1), of c inflight] assms(2-7)
  by (simp add: fetch_effects proxy_def attempt_def)

lemma lookup_empty: "lookup h t empty_cache p = None"
  by (simp add: lookup_def empty_cache_def)

theorem stored_only_if_cacheable_witness:
  "\<exists>u r. scheduled (fetch (example_host example_texts) example_env
           (example_world (Inl (Error ''down''))) empty_cache nothing_in_flight
           (example_request [] ''0'')) = Some (u, r) \<and>
         up_ok \<lparr>up_status = 200, up_content_type = Some ''application/json'', up_text = example_data\<rparr> \<and>
         includesStr ''application/json'' ''application/json'' \<and>
         r_status r = 200 \<and> r_body r = example_data"
proof -
  let ?h = "example_host example_texts"
  let ?w = "example_world (Inl (Error ''down''))"
  let ?up = "\<lparr>up_status = 200, up_content_type = Some ''application/json'', up_text = example_data\<rparr>"
  obtain p where p: "prepare ?h example_env ?w (example_request [] ''0'') = Goes_on p"
    and nf: "\<not> p_forceFresh p"
    using example_prepare_unforced by blast
  have u: "upstream ?w = Inr ?up" by (simp add: example_world_def)
  have "Response_fault ?h (Some (iv_text (upstream_value ?up))) (iv_status (upstream_value ?up)) = None"
    by (simp add: Response_fault_def null_body_status_def upstream_value_def)
  then obtain r where r: "makeTextResponse ?h (upstream_value ?up) (p_ttl p) MISS = Inr r"
    by (simp add: makeTextResponse_cases)
  have n: "nothing_in_flight (p_hashKey p) = None" by (simp add: nothing_in_flight_def)
  have s: "scheduled (fetch ?h example_env ?w empty_cache nothing_in_flight
             (example_request [] ''0'')) = Some (p_cacheUrl p, r)"
    by (rule unforced_cacheable_run[where inflight = nothing_in_flight,
          OF p nf lookup_empty n u example_okToCache r])
  have ok: "up_ok ?up" by (simp add: up_ok_def)
  have inc: "includesStr ''application/json'' ''application/json''" by simp
  from stored_only_if_cacheable[of ?h example_env ?w empty_cache nothing_in_flight
      "example_request [] ''0''" "p_cacheUrl p" r] s u
  have "r_status r = 200 \<and> r_body r = example_data" by auto
  with s ok inc show ?thesis by blast
qed

text \<open>
  The claim as stated fails for a JSON content type that does not contain
  \<^verbatim>\<open>application/json\<close>: the upstream answers 200 with the content type
  \<^verbatim>\<open>application/graphql-response+json\<close> and a body with a top-level \<^verbatim>\<open>errors\<close> key, and the
  response is handed to the cache with that body.
\<close>

theorem stored_only_if_cacheable_counterexample:
  "upstream example_world_errors =
     Inr \<lparr>up_status = 200, up_content_type = Some ''application/graphql-response+json'',
          up_text = example_errors\<rparr> \<and>
   up_ok \<lparr>up_status = 200, up_content_type = Some ''application/graphql-response+json'',
          up_text = example_errors\<rparr> \<and>
   JSON_parse (example_host example_texts) example_errors =
     Some (JObj [(''errors'', JArr [JObj [(''message'', JStr ''boom'')]])]) \<and>
   has_errors (JObj [(''errors'', JArr [JObj [(''message'', JStr ''boom'')]])]) \<and>
   map_option (r_status \<circ> snd) (scheduled (fetch (example_host example_texts) example_env
     example_world_errors empty_cache nothing_in_flight (example_request [] ''0''))) = Some 200 \<and>
   map_option (r_body \<circ> snd) (scheduled (fetch (example_host example_texts) example_env
     example_world_errors empty_cache nothing_in_flight (example_request [] ''0''))) =
     Some example_errors"
proof -
  let ?h = "example_host example_texts"
  let ?up = "\<lparr>up_status = 200, up_content_type = Some ''application/graphql-response+json'',
              up_text = example_errors\<rparr>"
  obtain p where p: "prepare ?h example_env example_world_errors (example_request [] ''0'') = Goes_on p"
    and nf: "\<not> p_forceFresh p"
    using example_prepare_unforced by blast
  have u: "upstream example_world_errors = Inr ?up" by (simp add: example_world_errors_def)
  have ok: "up_ok ?up" by (simp add: up_ok_def)
  have c: "okToCache ?h (upstream_value ?up)"
    by (simp add: okToCache_def upstream_value_def up_ok_def normalize_value_def is_http_space_def)
  have "Response_fault ?h (Some (iv_text (upstream_value ?up))) (iv_status (upstream_value ?up)) = None"
    by (simp add: Response_fault_def null_body_status_def upstream_value_def)
  then obtain r where r: "makeTextResponse ?h (upstream_value ?up) (p_ttl p) MISS = Inr r"
    by (simp add: makeTextResponse_cases)
  have n: "nothing_in_flight (p_hashKey p) = None" by (simp add: nothing_in_flight_def)
  have s: "scheduled (fetch ?h example_env example_world_errors empty_cache nothing_in_flight
             (example_request [] ''0'')) = Some (p_cacheUrl p, r)"
    by (rule unforced_cacheable_run[where inflight = nothing_in_flight,
          OF p nf lookup_empty n u c r])
  have "r_status r = 200" "r_body r = example_errors"
    using makeTextResponse_Inr[OF r] by (simp_all add: upstream_value_def)
  with s u ok example_parse_errors show ?thesis by (simp add: has_errors_def)
qed

subsection \<open>The outermost boundary\<close>

lemma reply_Returns: "reply x = Returns r \<longleftrightarrow> x = Inr r"
  by (cases x) (auto simp: reply_def)

lemma plain_response_well_formed: "plain_response h t st = Inr r \<Longrightarrow> well_formed r"
  unfolding plain_response_def by (rule and_then_withCors_well_formed)

lemma read_request_Returns:
  assumes "read_request h req = Returns r"
  shows "well_formed r"
proof (cases "req_text req")
  case (Inl e)
  with assms show ?thesis by (simp add: read_request_def Let_def)
next
  case (Inr raw)
  show ?thesis
  proof (cases "if raw \<noteq> [] then JSON_parse h raw else Some (JObj [])")
    case None
    with assms Inr show ?thesis
      by (auto simp: read_request_def Let_def reply_Returns intro: plain_response_well_formed)
  next
    case (Some b)
    with assms Inr show ?thesis
      by (auto simp: read_request_def Let_def reply_Returns split: if_splits
          intro: plain_response_well_formed)
  qed
qed

lemma prepare_Returns:
  assumes "prepare h env w req = Returns r"
  shows "well_formed r"
proof -
  from assms consider
      "handleOptions h req = Inr r"
    | t st where "plain_response h t st = Inr r"
    | "meta_endpoint h env w = Inr r"
    | "read_request h req = Returns r"
    by (auto simp: prepare_def reply_Returns split: if_splits)
  then show ?thesis
  proof cases
    case 1
    with handleOptions_built[of h req] show ?thesis by auto
  next
    case 2
    then show ?thesis by (rule plain_response_well_formed)
  next
    case 3
    with meta_endpoint_built[of h env w] show ?thesis by auto
  next
    case 4
    then show ?thesis by (rule read_request_Returns)
  qed
qed

lemma proxy_Inr_well_formed:
  assumes "resp (proxy h w c inflight p) = Inr r"
  shows "well_formed r"
proof (cases "lookup h (match_throws w) c p")
  case (Some hit)
  with assms lookup_well_formed[OF Some] show ?thesis by (simp add: proxy_def)
next
  case None
  show ?thesis
  proof (cases "inflight (p_hashKey p)")
    case (Some v)
    with assms None show ?thesis
      by (auto simp: proxy_def intro: answer_response_Inr_well_formed)
  next
    case n: None
    obtain v t c' where "attempt h w c (p_hashKey p) (p_ttl p) (p_forceFresh p) = (v, t, c')"
      by (cases "attempt h w c (p_hashKey p) (p_ttl p) (p_forceFresh p)")
    with assms None n show ?thesis
      by (auto simp: proxy_def intro: answer_response_Inr_well_formed)
  qed
qed

lemma fetch_try_Inr_well_formed:
  assumes "resp (fetch_try h env w c inflight req) = Inr r"
  shows "well_formed r"
proof (cases "prepare h env w req")
  case (Throws e)
  with assms show ?thesis by (simp add: fetch_try_def)
next
  case (Returns r')
  with assms prepare_Returns[OF Returns] show ?thesis by (simp add: fetch_try_def)
next
  case (Goes_on p)
  with assms show ?thesis by (auto simp: fetch_try_def intro: proxy_Inr_well_formed)
qed

text \<open>
  Claim C8. The promise of the handler never rejects: for every request, environment, world,
  cache and in-flight map it resolves to a well-formed response. When the body of the outer
  \<^verbatim>\<open>try\<close> throws, whatever the step that threw (reading the body, a recursion on the
  variables, the \<^verbatim>\<open>Response\<close> constructor on what the upstream gave), the response is the
  internal-error response: status 500 and a JSON body with the error
  \<^verbatim>\<open>WORKER_INTERNAL_ERROR\<close> and the message of the exception. Otherwise the response is the one
  the body returned.
\<close>

theorem fetch_always_responds:
  "(\<exists>r. resp (fetch h env w c inflight req) = Inr r \<and> well_formed r) \<and>
   (resp (fetch_try h env w c inflight req) = Inl e \<longrightarrow>
      (\<exists>r. resp (fetch h env w c inflight req) = Inr r \<and> r_status r = 500 \<and>
           r_body r = internal_error_body h e \<and>
           headers_get (r_headers r) ''content-type'' = Some ''application/json'')) \<and>
   (resp (fetch_try h env w c inflight req) = Inr r0 \<longrightarrow>
      resp (fetch h env w c inflight req) = Inr r0)"
proof -
  have 1: "\<exists>r. resp (fetch h env w c inflight req) = Inr r \<and> well_formed r"
  proof (cases "resp (fetch_try h env w c inflight req)")
    case (Inl e')
    with internal_error_built[of h e'] show ?thesis
      by (auto simp: fetch_effects caught_def)
  next
    case (Inr r)
    with fetch_try_Inr_well_formed[OF Inr] show ?thesis
      by (simp add: fetch_effects caught_def)
  qed
  have 2: "\<exists>r. resp (fetch h env w c inflight req) = Inr r \<and> r_status r = 500 \<and>
           r_body r = internal_error_body h e \<and>
           headers_get (r_headers r) ''content-type'' = Some ''application/json''"
    if "resp (fetch_try h env w c inflight req) = Inl e"
    using that internal_error_built[of h e] by (auto simp: fetch_effects caught_def)
  have 3: "resp (fetch h env w c inflight req) = Inr r0"
    if "resp (fetch_try h env w c inflight req) = Inr r0"
    using that by (simp add: fetch_effects caught_def)
  from 1 2 3 show ?thesis by blast
qed

lemma example_body_throws:
  "resp (fetch_try h example_env w c inflight
     ((example_request [] ''0'')\<lparr>req_text := Inl e\<rparr>)) = Inl e"
  by (simp add: fetch_try_def prepare_def read_request_def example_request_def example_env_def
      Let_def)

lemma shallow_host_overflows:
  "resp (fetch_try shallow_host example_env w c inflight (example_request [] ''0'')) =
     Inl (RangeError ''Maximum call stack size exceeded'')"
proof -
  have b: "JSON_parse shallow_host example_body =
     Some (JObj [(''query'', JStr ''query LotteryById($id: ID!) { lottery(id: $id) { id } }''),
                 (''variables'', JObj [(''id'', JStr ''42''), (''first'', JStr ''9999'')])])"
    using example_parse_body by (simp add: shallow_host_def example_host_def)
  have x: "exhausts shallow_host In_walk (depth (JObj [(''id'', JStr ''42''), (''first'', JStr ''9999'')]))"
    by (simp add: shallow_host_def)
  have m: "stack_overflow shallow_host = RangeError ''Maximum call stack size exceeded''"
    by (simp add: stack_overflow_def shallow_host_def example_host_def example_message_def)
  show ?thesis
    using x m
    by (simp add: fetch_try_def prepare_def read_request_def example_request_def example_env_def
        b example_body_nonempty body_query_def body_variables_def get_prop_def Let_def)
qed

lemma not_modified_throws:
  "resp (fetch_try (example_host example_texts) example_env example_world_not_modified
     empty_cache nothing_in_flight (example_request [] ''0'')) =
     Inl (TypeError ''A response with a null body status cannot have a body'')"
proof -
  let ?h = "example_host example_texts"
  let ?up = "\<lparr>up_status = 304, up_content_type = None, up_text = []\<rparr>"
  obtain p where p:
    "prepare ?h example_env example_world_not_modified (example_request [] ''0'') = Goes_on p"
    using example_prepare_unforced by blast
  have a: "attempt ?h example_world_not_modified empty_cache (p_hashKey p) (p_ttl p)
             (p_forceFresh p) = (upstream_value ?up, None, empty_cache)"
    by (simp add: attempt_def example_world_not_modified_def okToCache_def upstream_value_def
        up_ok_def)
  have "Response_fault ?h (Some (iv_text (upstream_value ?up))) (iv_status (upstream_value ?up)) =
          Some (TypeError ''A response with a null body status cannot have a body'')"
    by (simp add: Response_fault_def null_body_status_def upstream_value_def example_host_def
        example_message_def)
  then have "answer_response ?h (upstream_value ?up) p True =
          Inl (TypeError ''A response with a null body status cannot have a body'')"
    by (rule answer_response_fault)
  with a show ?thesis
    using fetch_try_Goes_on[OF p, of empty_cache nothing_in_flight]
    by (simp add: proxy_def lookup_empty nothing_in_flight_def)
qed

theorem fetch_always_responds_witness:
  "resp (fetch_try (example_host example_texts) example_env (example_world (Inl (Error ''down'')))
     empty_cache nothing_in_flight
     ((example_request [] ''0'')\<lparr>req_text := Inl (Error ''body stream failed'')\<rparr>)) =
     Inl (Error ''body stream failed'') \<and>
   map_sum message r_status (resp (fetch (example_host example_texts) example_env
     (example_world (Inl (Error ''down''))) empty_cache nothing_in_flight
     ((example_request [] ''0'')\<lparr>req_text := Inl (Error ''body stream failed'')\<rparr>))) = Inr 500 \<and>
   resp (fetch_try shallow_host example_env (example_world (Inl (Error ''down'')))
     empty_cache nothing_in_flight (example_request [] ''0'')) =
     Inl (RangeError ''Maximum call stack size exceeded'') \<and>
   map_sum message r_status (resp (fetch shallow_host example_env
     (example_world (Inl (Error ''down''))) empty_cache nothing_in_flight
     (example_request [] ''0''))) = Inr 500 \<and>
   map_sum message r_body (resp (fetch shallow_host example_env
     (example_world (Inl (Error ''down''))) empty_cache nothing_in_flight
     (example_request [] ''0''))) =
     Inr (internal_error_body shallow_host (RangeError ''Maximum call stack size exceeded'')) \<and>
   resp (fetch_try (example_host example_texts) example_env example_world_not_modified
     empty_cache nothing_in_flight (example_request [] ''0'')) =
     Inl (TypeError ''A response with a null body status cannot have a body'') \<and>
   map_sum message r_status (resp (fetch (example_host example_texts) example_env
     example_world_not_modified empty_cache nothing_in_flight (example_request [] ''0''))) =
     Inr 500"
proof -
  let ?h = "example_host example_texts"
  let ?w = "example_world (Inl (Error ''down''))"
  let ?bad = "(example_request [] ''0'')\<lparr>req_text := Inl (Error ''body stream failed'')\<rparr>"
  have a: "resp (fetch_try ?h example_env ?w empty_cache nothing_in_flight ?bad) =
             Inl (Error ''body stream failed'')"
    by (rule example_body_throws)
  have b: "resp (fetch_try shallow_host example_env ?w empty_cache nothing_in_flight
             (example_request [] ''0'')) = Inl (RangeError ''Maximum call stack size exceeded'')"
    by (rule shallow_host_overflows)
  note c = not_modified_throws
  from fetch_always_responds[of ?h example_env ?w empty_cache nothing_in_flight ?bad
      "Error ''body stream failed''"] a
  obtain ra where "resp (fetch ?h example_env ?w empty_cache nothing_in_flight ?bad) = Inr ra"
    "r_status ra = 500"
    by blast
  then have 1: "map_sum message r_status (resp (fetch ?h example_env ?w empty_cache
      nothing_in_flight ?bad)) = Inr 500"
    by simp
  from fetch_always_responds[of shallow_host example_env ?w empty_cache nothing_in_flight
      "example_request [] ''0''" "RangeError ''Maximum call stack size exceeded''"] b
  obtain rb where "resp (fetch shallow_host example_env ?w empty_cache nothing_in_flight
      (example_request [] ''0'')) = Inr rb" "r_status rb = 500"
    "r_body rb = internal_error_body shallow_host (RangeError ''Maximum call stack size exceeded'')"
    by blast
  then have 2: "map_sum message r_status (resp (fetch shallow_host example_env ?w empty_cache
      nothing_in_flight (example_request [] ''0''))) = Inr 500"
    and 3: "map_sum message r_body (resp (fetch shallow_host example_env ?w empty_cache
      nothing_in_flight (example_request [] ''0''))) =
      Inr (internal_error_body shallow_host (RangeError ''Maximum call stack size exceeded''))"
    by simp_all
  from fetch_always_responds[of ?h example_env example_world_not_modified empty_cache
      nothing_in_flight "example_request [] ''0''"
      "TypeError ''A response with a null body status cannot have a body''"] c
  obtain rc where "resp (fetch ?h example_env example_world_not_modified empty_cache
      nothing_in_flight (example_request [] ''0'')) = Inr rc" "r_status rc = 500"
    by blast
  then have 4: "map_sum message r_status (resp (fetch ?h example_env example_world_not_modified
      empty_cache nothing_in_flight (example_request [] ''0''))) = Inr 500"
    by simp
  from a b c 1 2 3 4 show ?thesis by blast
qed

subsection \<open>Single flight\<close>

lemma coherent_init: "coherent init_process k"
  by (simp add: coherent_def init_process_def)

lemma step_coherent:
  assumes "coherent s k" and "step h s e = Some s'"
  shows "coherent s' k"
proof (cases e)
  case (Start rid p)
  with assms show ?thesis by (auto simp: coherent_def split: if_splits)
next
  case (Resume rid throws)
  with assms show ?thesis
    by (auto simp: coherent_def Let_def split: option.splits if_splits)
next
  case (Settle key w)
  with assms show ?thesis
    by (auto simp: coherent_def split: option.splits prod.splits if_splits)
next
  case (Land n success)
  with assms show ?thesis by (auto simp: coherent_def split: if_splits)
qed

lemma run_coherent: "coherent s k \<Longrightarrow> run h s es = Some s' \<Longrightarrow> coherent s' k"
proof (induction es arbitrary: s)
  case Nil
  then show ?case by simp
next
  case (Cons e es)
  then show ?case by (auto split: option.splits dest: step_coherent)
qed

lemma run_append:
  "run h s (es @ es') = (case run h s es of None \<Rightarrow> None | Some s' \<Rightarrow> run h s' es')"
  by (induction es arbitrary: s) (auto split: option.splits)

lemma resume_join:
  assumes "inflight_map s (p_hashKey p) = Some p0" and "started s rid = Some p"
    and "lookup h throws (edge s) p = None"
  shows "step h s (Resume rid throws) =
           Some (s\<lparr>started := (started s)(rid := None),
                   awaiting := (awaiting s)(rid \<mapsto> (p, False))\<rparr>)"
  using assms by (simp add: Let_def)

lemma resume_create:
  assumes "inflight_map s (p_hashKey p) = None" and "started s rid = Some p"
    and "lookup h throws (edge s) p = None"
  shows "step h s (Resume rid throws) =
           Some (s\<lparr>started := (started s)(rid := None),
                   inflight_map := (inflight_map s)(p_hashKey p \<mapsto> p),
                   active := (active s)(p_hashKey p := active s (p_hashKey p) + 1),
                   calls := (calls s)(p_hashKey p := calls s (p_hashKey p) + 1),
                   awaiting := (awaiting s)(rid \<mapsto> (p, True))\<rparr>)"
  using assms by (simp add: Let_def)

lemma exclusive_init: "exclusive init_process rid"
  by (simp add: exclusive_def init_process_def)

lemma step_exclusive:
  assumes "exclusive s rid" and "step h s e = Some s'"
  shows "exclusive s' rid"
proof (cases e)
  case (Start rid' p)
  with assms show ?thesis by (auto simp: exclusive_def fresh_def split: if_splits)
next
  case (Resume rid' throws)
  with assms show ?thesis
    by (auto simp: exclusive_def Let_def split: option.splits if_splits)
next
  case (Settle key w)
  with assms show ?thesis
    by (auto simp: exclusive_def split: option.splits prod.splits if_splits)
next
  case (Land n success)
  with assms show ?thesis by (auto simp: exclusive_def split: if_splits)
qed

lemma run_exclusive: "exclusive s rid \<Longrightarrow> run h s es = Some s' \<Longrightarrow> exclusive s' rid"
proof (induction es arbitrary: s)
  case Nil
  then show ?case by simp
next
  case (Cons e es)
  then show ?case by (auto split: option.splits dest: step_exclusive)
qed

lemma step_quiet:
  assumes "inflight_map s key = Some p0" and "quiet key e" and "step h s e = Some s'"
  shows "inflight_map s' key = Some p0 \<and> calls s' key = calls s key"
proof (cases e)
  case (Start rid p)
  with assms show ?thesis by (auto split: if_splits)
next
  case (Resume rid throws)
  with assms show ?thesis
    by (auto simp: Let_def split: option.splits if_splits)
next
  case (Settle k w)
  with assms show ?thesis
    by (auto simp: quiet_def split: option.splits prod.splits if_splits)
next
  case (Land n success)
  with assms show ?thesis by (auto split: if_splits)
qed

lemma step_keeps_awaiting:
  assumes "quiet key e" and "step h s e = Some s'" and "exclusive s rid"
    and "awaits_key s key rid"
  shows "awaits_key s' key rid"
proof (cases e)
  case (Start rid' p)
  with assms show ?thesis by (auto simp: awaits_key_def split: if_splits)
next
  case (Resume rid' throws)
  with assms show ?thesis
    by (auto simp: awaits_key_def exclusive_def Let_def split: option.splits if_splits)
next
  case (Settle k w)
  with assms show ?thesis
    by (auto simp: awaits_key_def quiet_def split: option.splits prod.splits if_splits)
next
  case (Land n success)
  with assms show ?thesis by (auto simp: awaits_key_def split: if_splits)
qed

lemma run_quiet:
  assumes "inflight_map s key = Some p0" and "list_all (quiet key) es" and "run h s es = Some s'"
  shows "inflight_map s' key = Some p0 \<and> calls s' key = calls s key"
  using assms
proof (induction es arbitrary: s)
  case Nil
  then show ?case by simp
next
  case (Cons e es)
  from Cons.prems(3) obtain s1 where s1: "step h s e = Some s1" "run h s1 es = Some s'"
    by (auto split: option.splits)
  from Cons.prems(2) have q: "quiet key e" "list_all (quiet key) es" by simp_all
  from step_quiet[OF Cons.prems(1) q(1) s1(1)]
  have 1: "inflight_map s1 key = Some p0" "calls s1 key = calls s key" by simp_all
  from Cons.IH[OF 1(1) q(2) s1(2)] 1(2) show ?case by simp
qed

lemma run_keeps_awaiting:
  assumes "list_all (quiet key) es" and "run h s es = Some s'" and "exclusive s rid"
    and "awaits_key s key rid"
  shows "awaits_key s' key rid"
  using assms
proof (induction es arbitrary: s)
  case Nil
  then show ?case by simp
next
  case (Cons e es)
  from Cons.prems(2) obtain s1 where s1: "step h s e = Some s1" "run h s1 es = Some s'"
    by (auto split: option.splits)
  from Cons.prems(1) have q: "quiet key e" "list_all (quiet key) es" by simp_all
  have "awaits_key s1 key rid"
    by (rule step_keeps_awaiting[OF q(1) s1(1) Cons.prems(3) Cons.prems(4)])
  moreover have "exclusive s1 rid"
    by (rule step_exclusive[OF Cons.prems(3) s1(1)])
  ultimately show ?case using Cons.IH[OF q(2) s1(2)] by simp
qed

lemma settle_answers:
  assumes "inflight_map s key = Some p0"
  shows "\<exists>s1. step h s (Settle key w) = Some s1 \<and> inflight_map s1 key = None \<and>
           calls s1 = calls s \<and> started s1 = started s \<and>
           active s1 key = active s key - 1 \<and>
           edge s1 = snd (snd (attempt h w (edge s) key (p_ttl p0) (p_forceFresh p0))) \<and>
           (\<forall>rid p creator. awaiting s rid = Some (p, creator) \<and> p_hashKey p = key \<longrightarrow>
              answered s1 rid =
                Some (Some (fst (attempt h w (edge s) key (p_ttl p0) (p_forceFresh p0))),
                      caught h (answer_response h
                        (fst (attempt h w (edge s) key (p_ttl p0) (p_forceFresh p0))) p creator)))"
proof -
  obtain v t c' where a: "attempt h w (edge s) key (p_ttl p0) (p_forceFresh p0) = (v, t, c')"
    by (cases "attempt h w (edge s) key (p_ttl p0) (p_forceFresh p0)")
  with assms show ?thesis by simp
qed

lemma attempt_failure:
  "upstream w = Inl e \<Longrightarrow> attempt h w c key ttl ff = (failure_value h e, None, c)"
  by (simp add: attempt_def)

lemma failure_value_facts:
  "\<not> iv_ok (failure_value h e)" "iv_status (failure_value h e) = 502 \<or> iv_status (failure_value h e) = 504"
  by (simp_all add: failure_value_def)

lemma attempt_value:
  assumes "attempt h w c key ttl ff = (v, t, c')"
  shows "(\<exists>e. v = failure_value h e) \<or> (\<exists>up. v = upstream_value up)"
proof (cases "upstream w")
  case (Inl e)
  with assms show ?thesis by (auto simp: attempt_def)
next
  case (Inr up)
  with assms show ?thesis
    by (auto simp: attempt_def Let_def split: if_splits prod.splits sum.splits)
qed

lemma attempt_content_type:
  assumes "attempt h w c key ttl ff = (v, t, c')"
  shows "normalize_value (iv_contentType v) = iv_contentType v"
  using attempt_value[OF assms]
  by (auto simp: failure_value_def upstream_value_def split: option.splits)

lemma caught_answer:
  assumes "normalize_value (iv_contentType v) = iv_contentType v"
  shows "\<exists>r. caught h (answer_response h v p creator) = Inr r \<and>
           (case Response_fault h (Some (iv_text v)) (iv_status v) of
              None \<Rightarrow>
                r_status r = iv_status v \<and> r_body r = iv_text v \<and>
                headers_get (r_headers r) ''content-type'' = Some (iv_contentType v)
            | Some e \<Rightarrow>
                r_status r = 500 \<and> r_body r = internal_error_body h e \<and>
                headers_get (r_headers r) ''content-type'' = Some ''application/json'')"
proof (cases "Response_fault h (Some (iv_text v)) (iv_status v)")
  case None
  from answer_response_built[OF None, of p creator] assms None show ?thesis
    by (auto simp: caught_def)
next
  case (Some e)
  from answer_response_fault[OF Some, of p creator] internal_error_built[of h e] Some
  show ?thesis by (auto simp: caught_def)
qed

lemma settle_same_outcome:
  assumes "inflight_map s key = Some p0"
  shows "\<exists>s1 v. step h s (Settle key w) = Some s1 \<and> inflight_map s1 key = None \<and>
           calls s1 = calls s \<and> (\<forall>rid. awaits_key s key rid \<longrightarrow> same_outcome h s1 rid v)"
proof -
  let ?v = "fst (attempt h w (edge s) key (p_ttl p0) (p_forceFresh p0))"
  from settle_answers[OF assms, of h w] obtain s1 where s1:
    "step h s (Settle key w) = Some s1" "inflight_map s1 key = None" "calls s1 = calls s"
    "\<forall>rid p' creator. awaiting s rid = Some (p', creator) \<and> p_hashKey p' = key \<longrightarrow>
        answered s1 rid = Some (Some ?v, caught h (answer_response h ?v p' creator))"
    by blast
  have n: "normalize_value (iv_contentType ?v) = iv_contentType ?v"
    by (rule attempt_content_type[of h w "edge s" key "p_ttl p0" "p_forceFresh p0" _
          "fst (snd (attempt h w (edge s) key (p_ttl p0) (p_forceFresh p0)))"
          "snd (snd (attempt h w (edge s) key (p_ttl p0) (p_forceFresh p0)))"]) simp
  have "same_outcome h s1 rid ?v" if "awaits_key s key rid" for rid
  proof -
    from that obtain p' creator where "awaiting s rid = Some (p', creator)" "p_hashKey p' = key"
      by (auto simp: awaits_key_def split: option.splits)
    with s1(4) have a: "answered s1 rid = Some (Some ?v, caught h (answer_response h ?v p' creator))"
      by blast
    from caught_answer[OF n, of h p' creator] obtain r where
      "caught h (answer_response h ?v p' creator) = Inr r"
      "case Response_fault h (Some (iv_text ?v)) (iv_status ?v) of
              None \<Rightarrow>
                r_status r = iv_status ?v \<and> r_body r = iv_text ?v \<and>
                headers_get (r_headers r) ''content-type'' = Some (iv_contentType ?v)
            | Some e \<Rightarrow>
                r_status r = 500 \<and> r_body r = internal_error_body h e \<and>
                headers_get (r_headers r) ''content-type'' = Some ''application/json''"
      by blast
    with a show ?thesis by (simp add: same_outcome_def)
  qed
  with s1(1,2,3) show ?thesis by blast
qed

lemma coalesced_window:
  assumes reach: "run h init_process es = Some s"
    and none: "inflight_map s key = None"
    and st: "started s rid0 = Some p0" and k: "p_hashKey p0 = key"
    and miss: "lookup h t0 (edge s) p0 = None"
    and q: "list_all (quiet key) es'"
    and r: "run h s (Resume rid0 t0 # es') = Some sp"
  shows "\<exists>s1 v. step h sp (Settle key w) = Some s1 \<and>
           calls s1 key = calls s key + 1 \<and> inflight_map s1 key = None \<and>
           same_outcome h s1 rid0 v \<and>
           (\<forall>es1 rid t es2 sm p.
              es' = es1 @ Resume rid t # es2 \<and> run h s (Resume rid0 t0 # es1) = Some sm \<and>
              started sm rid = Some p \<and> p_hashKey p = key \<and> lookup h t (edge sm) p = None \<longrightarrow>
              same_outcome h s1 rid v)"
proof -
  let ?sa = "s\<lparr>started := (started s)(rid0 := None),
                inflight_map := (inflight_map s)(p_hashKey p0 \<mapsto> p0),
                active := (active s)(p_hashKey p0 := active s (p_hashKey p0) + 1),
                calls := (calls s)(p_hashKey p0 := calls s (p_hashKey p0) + 1),
                awaiting := (awaiting s)(rid0 \<mapsto> (p0, True))\<rparr>"
  have sa: "step h s (Resume rid0 t0) = Some ?sa"
    using resume_create[of s p0 rid0 h t0] none st k miss by simp
  from r sa have rp: "run h ?sa es' = Some sp" by simp
  have exa: "exclusive ?sa rid" for rid
    by (rule step_exclusive[OF run_exclusive[OF exclusive_init reach] sa])
  have slot_a: "inflight_map ?sa key = Some p0" using k by simp
  have aw_a: "awaits_key ?sa key rid0" using k by (simp add: awaits_key_def)
  from run_quiet[OF slot_a q rp] k
  have slot_p: "inflight_map sp key = Some p0" and calls_p: "calls sp key = calls s key + 1"
    by simp_all
  have aw_0: "awaits_key sp key rid0"
    by (rule run_keeps_awaiting[OF q rp exa aw_a])
  from settle_same_outcome[OF slot_p, of h w] obtain s1 v where s1:
    "step h sp (Settle key w) = Some s1" "inflight_map s1 key = None" "calls s1 = calls sp"
    "\<forall>rid. awaits_key sp key rid \<longrightarrow> same_outcome h s1 rid v"
    by blast
  have joined: "same_outcome h s1 rid v"
    if split: "es' = es1 @ Resume rid t # es2"
      and rm: "run h s (Resume rid0 t0 # es1) = Some sm"
      and sm: "started sm rid = Some p" "p_hashKey p = key" "lookup h t (edge sm) p = None"
    for es1 rid t es2 sm p
  proof -
    from q split have q1: "list_all (quiet key) es1" and q2: "list_all (quiet key) es2"
      by simp_all
    from rm sa have r1: "run h ?sa es1 = Some sm" by simp
    from run_quiet[OF slot_a q1 r1] have slot_m: "inflight_map sm key = Some p0" by simp
    let ?sj = "sm\<lparr>started := (started sm)(rid := None),
                   awaiting := (awaiting sm)(rid \<mapsto> (p, False))\<rparr>"
    have sj: "step h sm (Resume rid t) = Some ?sj"
      using resume_join[of sm p p0 rid h t] slot_m sm by simp
    have exj: "exclusive ?sj rid"
      by (rule step_exclusive[OF run_exclusive[OF exa r1] sj])
    have awj: "awaits_key ?sj key rid" using sm(2) by (simp add: awaits_key_def)
    from rp split r1 sj have r2: "run h ?sj es2 = Some sp"
      by (simp add: run_append)
    have "awaits_key sp key rid"
      by (rule run_keeps_awaiting[OF q2 r2 exj awj])
    with s1(4) show ?thesis by blast
  qed
  have "calls s1 key = calls s key + 1" using s1(3) calls_p by simp
  moreover have "same_outcome h s1 rid0 v" using s1(4) aw_0 by blast
  ultimately show ?thesis using s1(1,2) joined by blast
qed

lemma example_attempt_down:
  "attempt h example_world_down c key ttl ff = (failure_value h (Error ''connection refused''), None, c)"
  by (simp add: attempt_def example_world_down_def)

lemma example_attempt_ok:
  "attempt (example_host example_texts) (example_world pr) c key ttl False =
     (upstream_value \<lparr>up_status = 200, up_content_type = Some ''application/json'',
                      up_text = example_data\<rparr>,
      Some \<lparr>r_status = 200,
            r_headers = new_Headers
              [(''content-type'', ''application/json''),
               (''Cache-Control'', cacheControlEdgeOnly ttl),
               (''CDN-Cache-Control'', cacheControlEdgeOnly ttl),
               (''X-Cache'', ''MISS'')],
            r_body = example_data\<rparr>,
      c)"
proof -
  let ?up = "\<lparr>up_status = 200, up_content_type = Some ''application/json'',
              up_text = example_data\<rparr>"
  have "Response_fault (example_host example_texts) (Some (iv_text (upstream_value ?up)))
          (iv_status (upstream_value ?up)) = None"
    by (simp add: Response_fault_def null_body_status_def upstream_value_def)
  then have "makeTextResponse (example_host example_texts) (upstream_value ?up) ttl MISS =
          Inr \<lparr>r_status = 200,
            r_headers = new_Headers
              [(''content-type'', ''application/json''),
               (''Cache-Control'', cacheControlEdgeOnly ttl),
               (''CDN-Cache-Control'', cacheControlEdgeOnly ttl),
               (''X-Cache'', ''MISS'')],
            r_body = example_data\<rparr>"
    by (simp add: makeTextResponse_cases upstream_value_def)
  with example_okToCache show ?thesis
    by (simp add: attempt_def example_world_def Let_def)
qed

lemma example_failure_status:
  "iv_status (failure_value h (Error ''connection refused'')) = 502"
  by (simp add: failure_value_def isAbortTimeout_def toLowerCase_def lower_char_def)

lemma example_parsed_fields:
  "p_hashKey example_parsed = ''k1''" "p_forceFresh example_parsed = False" "p_ttl example_parsed = 15"
  by (simp_all add: example_parsed_def)

lemma example_lookup_empty: "lookup h False (\<lambda>u. None) example_parsed = None"
  by (simp add: lookup_def)

lemma example_window:
  "\<exists>s sa sb sp.
     run h init_process [Start 1 example_parsed, Start 2 example_parsed, Start 3 example_parsed] = Some s \<and>
     inflight_map s ''k1'' = None \<and> calls s ''k1'' = 0 \<and>
     started s 1 = Some example_parsed \<and> lookup h False (edge s) example_parsed = None \<and>
     run h s (Resume 1 False # []) = Some sa \<and>
     started sa 2 = Some example_parsed \<and> lookup h False (edge sa) example_parsed = None \<and>
     run h s (Resume 1 False # [Resume 2 False, Start 4 example_parsed]) = Some sb \<and>
     started sb 3 = Some example_parsed \<and> lookup h True (edge sb) example_parsed = None \<and>
     run h s (Resume 1 False # [Resume 2 False, Start 4 example_parsed, Resume 3 True]) = Some sp"
  by (simp add: init_process_def fresh_def example_parsed_fields lookup_def Let_def)

lemma example_one_resumed:
  "\<exists>s. run h init_process [Start 1 example_parsed, Start 2 example_parsed, Resume 1 False] = Some s \<and>
       inflight_map s ''k1'' = Some example_parsed \<and> awaits_key s ''k1'' 1 \<and>
       started s 2 = Some example_parsed \<and> edge s = (\<lambda>u. None)"
  by (simp add: init_process_def fresh_def example_parsed_fields lookup_def awaits_key_def Let_def)

text \<open>
  Claim C2, as amended. At any instant of any run from the initial state at most one
  upstream call per key is in flight, and one is in flight exactly while the map holds a
  promise for the key. When a request finds no promise for its key and creates one, then,
  whatever else happens until the upstream attempt behind that promise ends, exactly one
  upstream call is made for the key, and the creator and every request for the key that
  reaches the in-flight map in between (without a cache hit) are all answered from the same
  value: the same status, content type, body and success flag.
\<close>

theorem single_flight:
  "(run h init_process es = Some s \<longrightarrow>
      active s key \<le> 1 \<and> (active s key = 1 \<longleftrightarrow> inflight_map s key \<noteq> None)) \<and>
   (run h init_process es = Some s \<and> inflight_map s key = None \<and>
    started s rid0 = Some p0 \<and> p_hashKey p0 = key \<and> lookup h t0 (edge s) p0 = None \<and>
    list_all (quiet key) es' \<and> run h s (Resume rid0 t0 # es') = Some sp \<longrightarrow>
      (\<exists>s1 v. step h sp (Settle key w) = Some s1 \<and>
         calls s1 key = calls s key + 1 \<and> inflight_map s1 key = None \<and>
         same_outcome h s1 rid0 v \<and>
         (\<forall>es1 rid t es2 sm p.
            es' = es1 @ Resume rid t # es2 \<and> run h s (Resume rid0 t0 # es1) = Some sm \<and>
            started sm rid = Some p \<and> p_hashKey p = key \<and> lookup h t (edge sm) p = None \<longrightarrow>
            same_outcome h s1 rid v)))"
proof (rule conjI)
  show "run h init_process es = Some s \<longrightarrow>
      active s key \<le> 1 \<and> (active s key = 1 \<longleftrightarrow> inflight_map s key \<noteq> None)"
  proof (rule impI)
    assume "run h init_process es = Some s"
    from run_coherent[OF coherent_init this] have "coherent s key" .
    then show "active s key \<le> 1 \<and> (active s key = 1 \<longleftrightarrow> inflight_map s key \<noteq> None)"
      by (simp add: coherent_def)
  qed
  show "run h init_process es = Some s \<and> inflight_map s key = None \<and>
    started s rid0 = Some p0 \<and> p_hashKey p0 = key \<and> lookup h t0 (edge s) p0 = None \<and>
    list_all (quiet key) es' \<and> run h s (Resume rid0 t0 # es') = Some sp \<longrightarrow>
      (\<exists>s1 v. step h sp (Settle key w) = Some s1 \<and>
         calls s1 key = calls s key + 1 \<and> inflight_map s1 key = None \<and>
         same_outcome h s1 rid0 v \<and>
         (\<forall>es1 rid t es2 sm p.
            es' = es1 @ Resume rid t # es2 \<and> run h s (Resume rid0 t0 # es1) = Some sm \<and>
            started sm rid = Some p \<and> p_hashKey p = key \<and> lookup h t (edge sm) p = None \<longrightarrow>
            same_outcome h s1 rid v))"
  proof (rule impI)
    assume a: "run h init_process es = Some s \<and> inflight_map s key = None \<and>
      started s rid0 = Some p0 \<and> p_hashKey p0 = key \<and> lookup h t0 (edge s) p0 = None \<and>
      list_all (quiet key) es' \<and> run h s (Resume rid0 t0 # es') = Some sp"
    then have 1: "run h init_process es = Some s" and 2: "inflight_map s key = None"
      and 3: "started s rid0 = Some p0" and 4: "p_hashKey p0 = key"
      and 5: "lookup h t0 (edge s) p0 = None" and 6: "list_all (quiet key) es'"
      and 7: "run h s (Resume rid0 t0 # es') = Some sp"
      by blast+
    show "\<exists>s1 v. step h sp (Settle key w) = Some s1 \<and>
         calls s1 key = calls s key + 1 \<and> inflight_map s1 key = None \<and>
         same_outcome h s1 rid0 v \<and>
         (\<forall>es1 rid t es2 sm p.
            es' = es1 @ Resume rid t # es2 \<and> run h s (Resume rid0 t0 # es1) = Some sm \<and>
            started sm rid = Some p \<and> p_hashKey p = key \<and> lookup h t (edge sm) p = None \<longrightarrow>
            same_outcome h s1 rid v)"
      by (rule coalesced_window[OF 1 2 3 4 5 6 7])
  qed
qed

text \<open>
  The claim as stated fails for requests that merely overlap in time: in \<open>example_overlap\<close>
  two handlers for the same key have both started, the key is never cached, and yet the
  upstream is called twice and the two requests get different outcomes, because the second
  handler reaches the map only after the promise of the first has settled and been removed.
\<close>

theorem single_flight_counterexample:
  "calls_after (example_host example_texts) example_overlap ''k1'' = Some 2 \<and>
   outcome_after (example_host example_texts) example_overlap 1 =
     Some (failure_value (example_host example_texts) (Error ''connection refused'')) \<and>
   outcome_after (example_host example_texts) example_overlap 2 =
     Some (upstream_value \<lparr>up_status = 200, up_content_type = Some ''application/json'',
                           up_text = example_data\<rparr>) \<and>
   iv_status (failure_value (example_host example_texts) (Error ''connection refused'')) = 502 \<and>
   iv_status (upstream_value \<lparr>up_status = 200, up_content_type = Some ''application/json'',
                           up_text = example_data\<rparr>) = 200"
  by (simp add: calls_after_def outcome_after_def outcome_of_def example_overlap_def
      init_process_def fresh_def example_parsed_fields example_lookup_empty example_attempt_down
      example_attempt_ok example_failure_status awaits_key_def upstream_value_def Let_def)

theorem single_flight_witness:
  "\<exists>s sa sb sp s1 v.
     run (example_host example_texts) init_process
       [Start 1 example_parsed, Start 2 example_parsed, Start 3 example_parsed] = Some s \<and>
     active s ''k1'' \<le> 1 \<and>
     inflight_map s ''k1'' = None \<and>
     started s 1 = Some example_parsed \<and> p_hashKey example_parsed = ''k1'' \<and>
     lookup (example_host example_texts) False (edge s) example_parsed = None \<and>
     list_all (quiet ''k1'') [Resume 2 False, Start 4 example_parsed, Resume 3 True] \<and>
     run (example_host example_texts) s
       (Resume 1 False # [Resume 2 False, Start 4 example_parsed, Resume 3 True]) = Some sp \<and>
     step (example_host example_texts) sp (Settle ''k1'' (example_world (Inl (Error ''down'')))) = Some s1 \<and>
     calls s1 ''k1'' = 1 \<and> inflight_map s1 ''k1'' = None \<and>
     same_outcome (example_host example_texts) s1 1 v \<and>
     run (example_host example_texts) s (Resume 1 False # []) = Some sa \<and>
     started sa 2 = Some example_parsed \<and> lookup (example_host example_texts) False (edge sa) example_parsed = None \<and>
     same_outcome (example_host example_texts) s1 2 v \<and>
     run (example_host example_texts) s
       (Resume 1 False # [Resume 2 False, Start 4 example_parsed]) = Some sb \<and>
     started sb 3 = Some example_parsed \<and> lookup (example_host example_texts) True (edge sb) example_parsed = None \<and>
     same_outcome (example_host example_texts) s1 3 v"
proof -
  from example_window[of "example_host example_texts"] obtain s sa sb sp where x:
    "run (example_host example_texts) init_process
       [Start 1 example_parsed, Start 2 example_parsed, Start 3 example_parsed] = Some s"
    "inflight_map s ''k1'' = None" "calls s ''k1'' = 0"
    "started s 1 = Some example_parsed" "lookup (example_host example_texts) False (edge s) example_parsed = None"
    "run (example_host example_texts) s (Resume 1 False # []) = Some sa"
    "started sa 2 = Some example_parsed" "lookup (example_host example_texts) False (edge sa) example_parsed = None"
    "run (example_host example_texts) s
       (Resume 1 False # [Resume 2 False, Start 4 example_parsed]) = Some sb"
    "started sb 3 = Some example_parsed" "lookup (example_host example_texts) True (edge sb) example_parsed = None"
    "run (example_host example_texts) s
       (Resume 1 False # [Resume 2 False, Start 4 example_parsed, Resume 3 True]) = Some sp"
    by blast
  have k: "p_hashKey example_parsed = ''k1''" by (simp add: example_parsed_fields)
  have q: "list_all (quiet ''k1'') [Resume 2 False, Start 4 example_parsed, Resume 3 True]"
    by (simp add: quiet_def)
  from single_flight[of "example_host example_texts"
      "[Start 1 example_parsed, Start 2 example_parsed, Start 3 example_parsed]" s "''k1''"
      1 example_parsed False "[Resume 2 False, Start 4 example_parsed, Resume 3 True]" sp
      "example_world (Inl (Error ''down''))"]
    x(1,2,4,5,12) k q
  have a: "active s ''k1'' \<le> 1"
    and "\<exists>s1 v. step (example_host example_texts) sp
            (Settle ''k1'' (example_world (Inl (Error ''down'')))) = Some s1 \<and>
          calls s1 ''k1'' = calls s ''k1'' + 1 \<and> inflight_map s1 ''k1'' = None \<and>
          same_outcome (example_host example_texts) s1 1 v \<and>
          (\<forall>es1 rid t es2 sm p.
             [Resume 2 False, Start 4 example_parsed, Resume 3 True] = es1 @ Resume rid t # es2 \<and>
             run (example_host example_texts) s (Resume 1 False # es1) = Some sm \<and>
             started sm rid = Some p \<and> p_hashKey p = ''k1'' \<and> lookup (example_host example_texts) t (edge sm) p = None \<longrightarrow>
             same_outcome (example_host example_texts) s1 rid v)"
    by blast+
  then obtain s1 v where s1:
    "step (example_host example_texts) sp
       (Settle ''k1'' (example_world (Inl (Error ''down'')))) = Some s1"
    "calls s1 ''k1'' = calls s ''k1'' + 1" "inflight_map s1 ''k1'' = None"
    "same_outcome (example_host example_texts) s1 1 v"
    "\<forall>es1 rid t es2 sm p.
       [Resume 2 False, Start 4 example_parsed, Resume 3 True] = es1 @ Resume rid t # es2 \<and>
       run (example_host example_texts) s (Resume 1 False # es1) = Some sm \<and>
       started sm rid = Some p \<and> p_hashKey p = ''k1'' \<and> lookup (example_host example_texts) t (edge sm) p = None \<longrightarrow>
       same_outcome (example_host example_texts) s1 rid v"
    by blast
  have "[Resume 2 False, Start 4 example_parsed, Resume 3 True] =
          [] @ Resume 2 False # [Start 4 example_parsed, Resume 3 True]"
    by simp
  with s1(5) x(6,7,8) k have o2: "same_outcome (example_host example_texts) s1 2 v" by blast
  have "[Resume 2 False, Start 4 example_parsed, Resume 3 True] =
          [Resume 2 False, Start 4 example_parsed] @ Resume 3 True # []"
    by simp
  with s1(5) x(9,10,11) k have o3: "same_outcome (example_host example_texts) s1 3 v" by blast
  from s1(2) x(3) have c: "calls s1 ''k1'' = 1" by simp
  from x a k q s1(1,3,4) o2 o3 c show ?thesis by blast
qed

text \<open>
  Claim C7. When the upstream attempt behind the promise of a key ends, the entry of the key
  is removed from the in-flight map, whatever the attempt gave. If the upstream call threw,
  the promise still resolves: every handler awaiting it is answered from a failure value
  (status 502 or 504, success flag false), and the cache is as before. A request for the same
  key that reaches the map afterwards without a cache hit creates a new entry and starts a
  new upstream call.
\<close>

theorem slot_removed_on_completion:
  assumes "inflight_map s key = Some p0"
  shows "\<exists>s'. step h s (Settle key w) = Some s' \<and> inflight_map s' key = None \<and>
           started s' = started s \<and>
           (\<forall>e. upstream w = Inl e \<longrightarrow>
              edge s' = edge s \<and>
              \<not> iv_ok (failure_value h e) \<and>
              (iv_status (failure_value h e) = 502 \<or> iv_status (failure_value h e) = 504) \<and>
              (\<forall>rid. awaits_key s key rid \<longrightarrow> outcome_of s' rid = Some (failure_value h e))) \<and>
           (\<forall>rid p throws.
              started s' rid = Some p \<and> p_hashKey p = key \<and> lookup h throws (edge s') p = None \<longrightarrow>
              (\<exists>s''. step h s' (Resume rid throws) = Some s'' \<and>
                     inflight_map s'' key = Some p \<and> calls s'' key = calls s' key + 1))"
proof -
  from settle_answers[OF assms, of h w] obtain s' where s':
    "step h s (Settle key w) = Some s'" "inflight_map s' key = None"
    "started s' = started s"
    "edge s' = snd (snd (attempt h w (edge s) key (p_ttl p0) (p_forceFresh p0)))"
    "\<forall>rid p creator. awaiting s rid = Some (p, creator) \<and> p_hashKey p = key \<longrightarrow>
        answered s' rid =
          Some (Some (fst (attempt h w (edge s) key (p_ttl p0) (p_forceFresh p0))),
                caught h (answer_response h
                  (fst (attempt h w (edge s) key (p_ttl p0) (p_forceFresh p0))) p creator))"
    by blast
  have fail: "outcome_of s' rid = Some (failure_value h e)"
    if "upstream w = Inl e" "awaits_key s key rid" for e rid
  proof -
    from that(2) obtain p creator where "awaiting s rid = Some (p, creator)" "p_hashKey p = key"
      by (auto simp: awaits_key_def split: option.splits)
    with s'(5) that(1) show ?thesis
      by (simp add: outcome_of_def attempt_failure)
  qed
  have unchanged: "edge s' = edge s" if "upstream w = Inl e" for e
    using s'(4) that by (simp add: attempt_failure)
  have again: "\<exists>s''. step h s' (Resume rid throws) = Some s'' \<and>
                     inflight_map s'' key = Some p \<and> calls s'' key = calls s' key + 1"
    if "started s' rid = Some p" "p_hashKey p = key" "lookup h throws (edge s') p = None"
    for rid p throws
    using resume_create[of s' p rid h throws] that s'(2) by simp
  from s'(1,2,3) fail unchanged again failure_value_facts[of h] show ?thesis
    by blast
qed

theorem slot_removed_on_completion_witness:
  "\<exists>s s' s''.
     run (example_host example_texts) init_process
       [Start 1 example_parsed, Start 2 example_parsed, Resume 1 False] = Some s \<and>
     inflight_map s ''k1'' = Some example_parsed \<and>
     upstream example_world_down = Inl (Error ''connection refused'') \<and>
     awaits_key s ''k1'' 1 \<and>
     step (example_host example_texts) s (Settle ''k1'' example_world_down) = Some s' \<and>
     inflight_map s' ''k1'' = None \<and>
     outcome_of s' 1 = Some (failure_value (example_host example_texts) (Error ''connection refused'')) \<and>
     started s' 2 = Some example_parsed \<and> p_hashKey example_parsed = ''k1'' \<and>
     lookup (example_host example_texts) False (edge s') example_parsed = None \<and>
     step (example_host example_texts) s' (Resume 2 False) = Some s'' \<and>
     inflight_map s'' ''k1'' = Some example_parsed \<and>
     calls s'' ''k1'' = calls s' ''k1'' + 1"
proof -
  from example_one_resumed[of "example_host example_texts"] obtain s where s:
    "run (example_host example_texts) init_process
       [Start 1 example_parsed, Start 2 example_parsed, Resume 1 False] = Some s"
    "inflight_map s ''k1'' = Some example_parsed" "awaits_key s ''k1'' 1"
    "started s 2 = Some example_parsed" "edge s = (\<lambda>u. None)"
    by blast
  have u: "upstream example_world_down = Inl (Error ''connection refused'')"
    by (simp add: example_world_down_def)
  from slot_removed_on_completion[OF s(2), of "example_host example_texts" example_world_down]
  obtain s' where s':
    "step (example_host example_texts) s (Settle ''k1'' example_world_down) = Some s'"
    "inflight_map s' ''k1'' = None" "started s' = started s"
    "\<forall>e. upstream example_world_down = Inl e \<longrightarrow>
        edge s' = edge s \<and>
        \<not> iv_ok (failure_value (example_host example_texts) e) \<and>
        (iv_status (failure_value (example_host example_texts) e) = 502 \<or>
         iv_status (failure_value (example_host example_texts) e) = 504) \<and>
        (\<forall>rid. awaits_key s ''k1'' rid \<longrightarrow>
           outcome_of s' rid = Some (failure_value (example_host example_texts) e))"
    "\<forall>rid p throws.
        started s' rid = Some p \<and> p_hashKey p = ''k1'' \<and> lookup (example_host example_texts) throws (edge s') p = None \<longrightarrow>
        (\<exists>s''. step (example_host example_texts) s' (Resume rid throws) = Some s'' \<and>
               inflight_map s'' ''k1'' = Some p \<and> calls s'' ''k1'' = calls s' ''k1'' + 1)"
    by blast
  from s'(4) u s(3) have e: "edge s' = edge s"
    and o: "outcome_of s' 1 = Some (failure_value (example_host example_texts) (Error ''connection refused''))"
    by blast+
  have st: "started s' 2 = Some example_parsed" using s'(3) s(4) by simp
  have k: "p_hashKey example_parsed = ''k1''" by (simp add: example_parsed_fields)
  have l: "lookup (example_host example_texts) False (edge s') example_parsed = None"
    using e s(5) by (simp add: example_lookup_empty)
  from s'(5) st k l obtain s'' where
    "step (example_host example_texts) s' (Resume 2 False) = Some s''"
    "inflight_map s'' ''k1'' = Some example_parsed" "calls s'' ''k1'' = calls s' ''k1'' + 1"
    by blast
  with s(1,2,3) u s'(1,2) o st k l show ?thesis by blast
qed

end
